theory Spec2Isabelle
  imports Main "HOL-Library.AList"
begin

section \<open>Python strings\<close>

text \<open>
  A Python \<open>str\<close> is modelled as a \<open>string\<close>: one \<open>char\<close> per code point, which
  covers the code points U+0000 to U+00FF. \<open>length\<close> therefore counts code points, as
  Python's \<open>len\<close> does.
\<close>

definition newline :: char where
  "newline = CHR 0x0A"

text \<open>
  \<open>str.isspace\<close> on one code point: the tabulators and line breaks U+0009 to U+000D,
  the separators U+001C to U+001F, the space, NEL (U+0085) and the no-break space (U+00A0).
\<close>

definition isspace :: "char \<Rightarrow> bool" where
  "isspace c = ((of_char c :: nat) \<in> set [9, 10, 11, 12, 13, 28, 29, 30, 31, 32, 133, 160])"

text \<open>\<open>str.strip()\<close> without argument removes leading and trailing whitespace.\<close>

definition strip :: "string \<Rightarrow> string" where
  "strip s = rev (dropWhile isspace (rev (dropWhile isspace s)))"

text \<open>
  \<open>str.lower()\<close>: below U+0100 the cased capitals are A to Z and U+00C0 to U+00DE
  without the multiplication sign U+00D7; each is 32 below its small letter.
\<close>

definition lower_char :: "char \<Rightarrow> char" where
  "lower_char c =
     (let n = (of_char c :: nat)
      in if (65 \<le> n \<and> n \<le> 90) \<or> (192 \<le> n \<and> n \<le> 222 \<and> n \<noteq> 215)
         then char_of (n + 32) else c)"

definition lower :: "string \<Rightarrow> string" where
  "lower s = map lower_char s"

text \<open>The decimal rendering of a non-negative \<open>int\<close> in an f-string.\<close>

fun str_nat :: "nat \<Rightarrow> string" where
  "str_nat n =
     (if n < 10 then [''0123456789'' ! n]
      else str_nat (n div 10) @ [''0123456789'' ! (n mod 10)])"

section \<open>The interface of the \<open>re\<close> module\<close>

text \<open>
  The regular expression engine is Python's, not this program's, so the filter takes it
  as a parameter. A compiled pattern object is known by the truth value of its
  \<open>search\<close> method (a match somewhere in the string) and of its \<open>fullmatch\<close> method
  (a match of the whole string); \<open>re.compile\<close> gets the pattern text and whether
  \<open>re.IGNORECASE\<close> is set, and answers a pattern object or raises \<open>re.error\<close> with a
  message (\<open>Inl\<close>).
\<close>

record pattern_obj =
  search :: "string \<Rightarrow> bool"
  fullmatch :: "string \<Rightarrow> bool"

type_synonym re_module = "string \<Rightarrow> bool \<Rightarrow> string + pattern_obj"

section \<open>core.py: \<open>filter_passwords\<close>\<close>

text \<open>\<open>sys.exit(code)\<close>, with what was printed to \<open>sys.stderr\<close> before it.\<close>

datatype system_exit = SystemExit (exit_code: nat) (diagnostics: "string list")

text \<open>
  What a call that returns has done: the strings passed to \<open>output_file.write\<close>, in
  order, the three counters, and the summary printed to \<open>sys.stderr\<close>.
\<close>

record run =
  written :: "string list"
  count_matched :: nat
  count_total_processed_lines :: nat
  count_valid_passwords :: nat
  printed :: "string list"

text \<open>
  Lines 25 to 36: the patterns are compiled in order; the first one the engine refuses
  ends the process with status 1 and a message naming the pattern.
\<close>

fun compile_patterns :: "re_module \<Rightarrow> bool \<Rightarrow> string list \<Rightarrow> system_exit + pattern_obj list" where
  "compile_patterns re ignore_case [] = Inr []"
| "compile_patterns re ignore_case (pattern_str # rest) =
     (case re pattern_str ignore_case of
        Inl e \<Rightarrow>
          Inl (SystemExit 1
            [''Error: Invalid regex pattern '' @ [CHR 0x27] @ pattern_str @ [CHR 0x27] @ '': '' @ e])
      | Inr rx \<Rightarrow>
          (case compile_patterns re ignore_case rest of
             Inl x \<Rightarrow> Inl x
           | Inr rxs \<Rightarrow> Inr (rx # rxs)))"

definition compiled_regexes_of ::
  "re_module \<Rightarrow> bool \<Rightarrow> string list option \<Rightarrow> system_exit + pattern_obj list" where
  "compiled_regexes_of re ignore_case regex_patterns =
     (case regex_patterns of
        None \<Rightarrow> Inr []
      | Some ps \<Rightarrow> if ps = [] then Inr [] else compile_patterns re ignore_case ps)"

text \<open>Lines 38 to 51: the dictionary words, a set; blank lines of the file are skipped.\<close>

fun read_dictionary :: "bool \<Rightarrow> string list \<Rightarrow> string set \<Rightarrow> string set" where
  "read_dictionary ignore_case [] dictionary_words = dictionary_words"
| "read_dictionary ignore_case (line # rest) dictionary_words =
     (let word = strip line
      in if word = [] then read_dictionary ignore_case rest dictionary_words
         else if ignore_case
           then read_dictionary ignore_case rest (insert (lower word) dictionary_words)
           else read_dictionary ignore_case rest (insert word dictionary_words))"

definition dictionary_words_of :: "bool \<Rightarrow> string list option \<Rightarrow> string set" where
  "dictionary_words_of ignore_case dictionary_file =
     (case dictionary_file of
        None \<Rightarrow> {}
      | Some ls \<Rightarrow> read_dictionary ignore_case ls {})"

text \<open>Lines 74 to 77: the loop over the compiled patterns, left at the first that fails.\<close>

fun regex_loop :: "pattern_obj list \<Rightarrow> string \<Rightarrow> bool" where
  "regex_loop [] password = True"
| "regex_loop (comp_rx # rest) password =
     (if \<not> search comp_rx password then False else regex_loop rest password)"

text \<open>Lines 66 to 77: the value of \<open>all_criteria_met\<close> for one candidate.\<close>

definition all_criteria_met ::
  "pattern_obj list \<Rightarrow> bool \<Rightarrow> string set \<Rightarrow> bool \<Rightarrow> string \<Rightarrow> bool" where
  "all_criteria_met compiled_regexes is_dictionary_filter_active dictionary_words ignore_case password =
     (let met =
            (if is_dictionary_filter_active
             then (let password_to_check_in_dict = (if ignore_case then lower password else password)
                   in if password_to_check_in_dict \<notin> dictionary_words then False else True)
             else True)
      in if met \<and> compiled_regexes \<noteq> [] then regex_loop compiled_regexes password else met)"

text \<open>Lines 57 to 86: the loop over the raw lines of the word list.\<close>

fun filter_loop ::
  "pattern_obj list \<Rightarrow> bool \<Rightarrow> string set \<Rightarrow> bool \<Rightarrow> bool \<Rightarrow> string list \<Rightarrow> run \<Rightarrow> run" where
  "filter_loop rxs active ws invert_match ignore_case [] st = st"
| "filter_loop rxs active ws invert_match ignore_case (raw_line # rest) st =
     (let st1 = st\<lparr>count_total_processed_lines := count_total_processed_lines st + 1\<rparr>;
          password = strip raw_line
      in if password = [] then filter_loop rxs active ws invert_match ignore_case rest st1
         else
           (let st2 = st1\<lparr>count_valid_passwords := count_valid_passwords st1 + 1\<rparr>;
                met = all_criteria_met rxs active ws ignore_case password;
                st3 = st2\<lparr>written := written st2 @ [password @ [newline]],
                          count_matched := count_matched st2 + 1\<rparr>
            in if invert_match
               then (if \<not> met
                     then filter_loop rxs active ws invert_match ignore_case rest st3
                     else filter_loop rxs active ws invert_match ignore_case rest st2)
               else (if met
                     then filter_loop rxs active ws invert_match ignore_case rest st3
                     else filter_loop rxs active ws invert_match ignore_case rest st2)))"

text \<open>
  Lines 91 to 104: the summary for \<open>sys.stderr\<close>; \<open>output_file\<close> is \<open>None\<close> for
  \<open>sys.stdout\<close> and the name of the file otherwise.
\<close>

definition summary :: "string option \<Rightarrow> run \<Rightarrow> string" where
  "summary output_file r =
     ''Processed '' @ str_nat (count_valid_passwords r) @ '' valid passwords from ''
       @ str_nat (count_total_processed_lines r) @ '' total lines. ''
       @ (case output_file of
            Some name \<Rightarrow> ''Filtered '' @ str_nat (count_matched r) @ '' to '' @ name
          | None \<Rightarrow> ''Matched: '' @ str_nat (count_matched r) @ ''.'')"

text \<open>
  The function. The word list and the dictionary are the lines their files yield;
  \<open>regex_patterns\<close> and \<open>dictionary_file\<close> may be \<open>None\<close>. The result is the exit
  of the process, or the finished run.
\<close>

definition filter_passwords ::
  "re_module \<Rightarrow> string list \<Rightarrow> string option \<Rightarrow> string list option \<Rightarrow> string list option
     \<Rightarrow> bool \<Rightarrow> bool \<Rightarrow> system_exit + run" where
  "filter_passwords re wordlist_file output_file regex_patterns dictionary_file
       invert_match ignore_case =
     (case compiled_regexes_of re ignore_case regex_patterns of
        Inl x \<Rightarrow> Inl x
      | Inr compiled_regexes \<Rightarrow>
          (let r = filter_loop compiled_regexes (dictionary_file \<noteq> None)
                     (dictionary_words_of ignore_case dictionary_file) invert_match ignore_case
                     wordlist_file
                     \<lparr>written = [], count_matched = 0, count_total_processed_lines = 0,
                      count_valid_passwords = 0, printed = []\<rparr>
           in Inr (r\<lparr>printed := [summary output_file r]\<rparr>)))"

section \<open>A model of Python's \<open>re\<close> for the patterns of the catalog\<close>

text \<open>
  Modelled from the documentation of Python's \<open>re\<close> module, which is no part of this
  repository: literals, the dot, the anchors for the start and the end of the string,
  character sets with ranges, negation and escaped punctuation, groups (capturing,
  non-capturing, the two lookaheads), alternation, the greedy repetitions (star, plus,
  question mark and counts in braces), escaped punctuation and the backreferences 1 to 9.
  Any other pattern is answered with \<open>Inl\<close>, also where Python would compile it; no
  theorem below rests on a pattern being refused.
\<close>

datatype node =
    Lit char
  | Dot
  | Bol
  | Eol
  | Cls bool "(char \<times> char) list"
  | Eps
  | Seq node node
  | Alt node node
  | Rep nat "nat option" node
  | Look bool node
  | Group "nat option" node
  | Bref nat

subsection \<open>Parsing\<close>

text \<open>
  The parser reads the pattern text one character at a time. Its state is a mode (what
  the characters read so far have begun), the open groups, innermost first and each
  with its finished alternatives and the items of its current alternative (both newest
  first), and the number of capturing groups opened so far.
\<close>

datatype kind = Top | Capture nat | NonCapture | Lookahead bool

type_synonym frame = "kind \<times> node list \<times> node list"

datatype mode =
    Normal
  | Escape
  | Open
  | OpenQ
  | ClassStart bool
  | Class bool "(char \<times> char) list" "char option" bool
  | ClassEscape bool "(char \<times> char) list" "char option" bool
  | BraceLo "nat option"
  | BraceHi "nat option" "nat option"

type_synonym pstate = "mode \<times> frame list \<times> nat"

definition backslash :: char where
  "backslash = CHR 0x5C"

definition is_digit :: "char \<Rightarrow> bool" where
  "is_digit c = (48 \<le> (of_char c :: nat) \<and> (of_char c :: nat) \<le> 57)"

definition digit_val :: "char \<Rightarrow> nat" where
  "digit_val c = of_char c - 48"

definition is_alnum :: "char \<Rightarrow> bool" where
  "is_alnum c =
     (let n = (of_char c :: nat)
      in (48 \<le> n \<and> n \<le> 57) \<or> (65 \<le> n \<and> n \<le> 90) \<or> (97 \<le> n \<and> n \<le> 122))"

definition seq_of :: "node list \<Rightarrow> node" where
  "seq_of items = foldl (\<lambda>acc x. Seq x acc) Eps items"

definition body_of :: "node list \<Rightarrow> node list \<Rightarrow> node" where
  "body_of alts items = foldl (\<lambda>acc x. Alt x acc) (seq_of items) alts"

fun push :: "node \<Rightarrow> frame list \<Rightarrow> frame list" where
  "push x [] = []"
| "push x ((k, alts, items) # fs) = (k, alts, x # items) # fs"

fun quantify :: "nat \<Rightarrow> nat option \<Rightarrow> frame list \<Rightarrow> string + frame list" where
  "quantify lo hi ((k, alts, x # items) # fs) =
     (case x of
        Rep _ _ _ \<Rightarrow> Inl ''multiple repeat''
      | Bol \<Rightarrow> Inl ''nothing to repeat''
      | Eol \<Rightarrow> Inl ''nothing to repeat''
      | _ \<Rightarrow>
          (case hi of
             None \<Rightarrow> Inr ((k, alts, Rep lo hi x # items) # fs)
           | Some h \<Rightarrow>
               if h < lo then Inl ''min repeat greater than max repeat''
               else Inr ((k, alts, Rep lo hi x # items) # fs)))"
| "quantify lo hi fs = Inl ''nothing to repeat''"

definition flush :: "(char \<times> char) list \<Rightarrow> char option \<Rightarrow> (char \<times> char) list" where
  "flush items pend = items @ (case pend of None \<Rightarrow> [] | Some a \<Rightarrow> [(a, a)])"

definition class_lit ::
  "bool \<Rightarrow> (char \<times> char) list \<Rightarrow> char option \<Rightarrow> bool \<Rightarrow> char \<Rightarrow> string + mode" where
  "class_lit neg items pend dash c =
     (if dash
      then (case pend of
              None \<Rightarrow> Inr (Class neg items (Some c) False)
            | Some a \<Rightarrow>
                if (of_char a :: nat) \<le> of_char c
                then Inr (Class neg (items @ [(a, c)]) None False)
                else Inl ''bad character range'')
      else Inr (Class neg (flush items pend) (Some c) False))"

definition step_normal :: "char \<Rightarrow> frame list \<Rightarrow> nat \<Rightarrow> string + pstate" where
  "step_normal c fs ng =
     (if c = backslash then Inr (Escape, fs, ng)
      else if c = CHR ''['' then Inr (ClassStart False, fs, ng)
      else if c = CHR ''('' then Inr (Open, fs, ng)
      else if c = CHR '')'' then
        (case fs of
           (k, alts, items) # parent # rest \<Rightarrow>
             (let b = body_of alts items;
                  x = (case k of
                         Capture n \<Rightarrow> Group (Some n) b
                       | NonCapture \<Rightarrow> Group None b
                       | Lookahead pos \<Rightarrow> Look pos b
                       | Top \<Rightarrow> b)
              in Inr (Normal, push x (parent # rest), ng))
         | _ \<Rightarrow> Inl ''unbalanced parenthesis'')
      else if c = CHR ''|'' then
        (case fs of
           (k, alts, items) # rest \<Rightarrow> Inr (Normal, (k, seq_of items # alts, []) # rest, ng)
         | [] \<Rightarrow> Inl ''no open frame'')
      else if c = CHR ''*'' then
        (case quantify 0 None fs of Inl e \<Rightarrow> Inl e | Inr fs' \<Rightarrow> Inr (Normal, fs', ng))
      else if c = CHR ''+'' then
        (case quantify 1 None fs of Inl e \<Rightarrow> Inl e | Inr fs' \<Rightarrow> Inr (Normal, fs', ng))
      else if c = CHR ''?'' then
        (case quantify 0 (Some 1) fs of Inl e \<Rightarrow> Inl e | Inr fs' \<Rightarrow> Inr (Normal, fs', ng))
      else if c = CHR ''{'' then Inr (BraceLo None, fs, ng)
      else if c = CHR ''^'' then Inr (Normal, push Bol fs, ng)
      else if c = CHR ''$'' then Inr (Normal, push Eol fs, ng)
      else if c = CHR ''.'' then Inr (Normal, push Dot fs, ng)
      else Inr (Normal, push (Lit c) fs, ng))"

definition add_digit :: "nat option \<Rightarrow> char \<Rightarrow> nat option" where
  "add_digit n c = Some (10 * (case n of None \<Rightarrow> 0 | Some k \<Rightarrow> k) + digit_val c)"

definition step :: "pstate \<Rightarrow> char \<Rightarrow> string + pstate" where
  "step st c =
     (case st of (md, fs, ng) \<Rightarrow>
        (case md of
           Normal \<Rightarrow> step_normal c fs ng
         | Escape \<Rightarrow>
             if is_digit c then
               (let n = digit_val c
                in if n = 0 then Inl ''unsupported escape''
                   else if ng < n then Inl ''invalid group reference''
                   else if Capture n \<in> set (map fst fs) then Inl ''cannot refer to an open group''
                   else Inr (Normal, push (Bref n) fs, ng))
             else if is_alnum c then Inl ''unsupported escape''
             else Inr (Normal, push (Lit c) fs, ng)
         | Open \<Rightarrow>
             if c = CHR ''?'' then Inr (OpenQ, fs, ng)
             else step_normal c ((Capture (Suc ng), [], []) # fs) (Suc ng)
         | OpenQ \<Rightarrow>
             if c = CHR '':'' then Inr (Normal, (NonCapture, [], []) # fs, ng)
             else if c = CHR ''='' then Inr (Normal, (Lookahead True, [], []) # fs, ng)
             else if c = CHR ''!'' then Inr (Normal, (Lookahead False, [], []) # fs, ng)
             else Inl ''unsupported group''
         | ClassStart neg \<Rightarrow>
             if c = CHR ''^'' \<and> \<not> neg then Inr (ClassStart True, fs, ng)
             else if c = backslash then Inr (ClassEscape neg [] None False, fs, ng)
             else Inr (Class neg [] (Some c) False, fs, ng)
         | Class neg items pend dash \<Rightarrow>
             if c = CHR '']'' then
               Inr (Normal,
                    push (Cls neg (flush items pend @ (if dash then [(CHR ''-'', CHR ''-'')] else []))) fs,
                    ng)
             else if c = backslash then Inr (ClassEscape neg items pend dash, fs, ng)
             else if c = CHR ''-'' \<and> pend \<noteq> None \<and> \<not> dash then Inr (Class neg items pend True, fs, ng)
             else (case class_lit neg items pend dash c of
                     Inl e \<Rightarrow> Inl e
                   | Inr md' \<Rightarrow> Inr (md', fs, ng))
         | ClassEscape neg items pend dash \<Rightarrow>
             if is_alnum c then Inl ''unsupported escape''
             else (case class_lit neg items pend dash c of
                     Inl e \<Rightarrow> Inl e
                   | Inr md' \<Rightarrow> Inr (md', fs, ng))
         | BraceLo lo \<Rightarrow>
             if is_digit c then Inr (BraceLo (add_digit lo c), fs, ng)
             else if c = CHR '','' then Inr (BraceHi lo None, fs, ng)
             else if c = CHR ''}'' then
               (case lo of
                  None \<Rightarrow> Inl ''unsupported literal brace''
                | Some n \<Rightarrow>
                    (case quantify n (Some n) fs of
                       Inl e \<Rightarrow> Inl e
                     | Inr fs' \<Rightarrow> Inr (Normal, fs', ng)))
             else Inl ''unsupported literal brace''
         | BraceHi lo hi \<Rightarrow>
             if is_digit c then Inr (BraceHi lo (add_digit hi c), fs, ng)
             else if c = CHR ''}'' then
               (case quantify (case lo of None \<Rightarrow> 0 | Some n \<Rightarrow> n) hi fs of
                  Inl e \<Rightarrow> Inl e
                | Inr fs' \<Rightarrow> Inr (Normal, fs', ng))
             else Inl ''unsupported literal brace''))"

fun parse_from :: "pstate \<Rightarrow> string \<Rightarrow> string + node" where
  "parse_from (md, fs, ng) [] =
     (case md of
        Normal \<Rightarrow>
          (case fs of
             [(Top, alts, items)] \<Rightarrow> Inr (body_of alts items)
           | _ \<Rightarrow> Inl ''missing ), unterminated subpattern'')
      | Escape \<Rightarrow> Inl ''bad escape (end of pattern)''
      | Open \<Rightarrow> Inl ''missing ), unterminated subpattern''
      | OpenQ \<Rightarrow> Inl ''unexpected end of pattern''
      | ClassStart _ \<Rightarrow> Inl ''unterminated character set''
      | Class _ _ _ _ \<Rightarrow> Inl ''unterminated character set''
      | ClassEscape _ _ _ _ \<Rightarrow> Inl ''unterminated character set''
      | BraceLo _ \<Rightarrow> Inl ''unsupported literal brace''
      | BraceHi _ _ \<Rightarrow> Inl ''unsupported literal brace'')"
| "parse_from st (c # cs) =
     (case step st c of
        Inl e \<Rightarrow> Inl e
      | Inr st' \<Rightarrow> parse_from st' cs)"

definition parse :: "string \<Rightarrow> string + node" where
  "parse pattern = parse_from (Normal, [(Top, [], [])], 0) pattern"

subsection \<open>Matching\<close>

text \<open>
  A matcher state is the position in the candidate, the rest of the candidate from
  there, and the texts of the groups captured so far (the newest binding first). The
  matcher of a node maps a state to the states in which a match of the node from there
  can end, in the order in which a backtracking engine tries them.
\<close>

type_synonym mstate = "nat \<times> string \<times> (nat \<times> string) list"

text \<open>
  The upper-case partner of one code point, as the engine uses it for ranges under
  \<open>re.IGNORECASE\<close>, as far as it stays below U+0100: the micro sign and the y with
  diaeresis have theirs beyond, the sharp s has none, and all three are left as they are.
\<close>

definition upper_char :: "char \<Rightarrow> char" where
  "upper_char c =
     (let n = (of_char c :: nat)
      in if (97 \<le> n \<and> n \<le> 122) \<or> (224 \<le> n \<and> n \<le> 254 \<and> n \<noteq> 247)
         then char_of (n - 32) else c)"

definition lit_eq :: "bool \<Rightarrow> char \<Rightarrow> char \<Rightarrow> bool" where
  "lit_eq ic l x = (if ic then lower_char l = lower_char x else l = x)"

definition between :: "char \<times> char \<Rightarrow> char \<Rightarrow> bool" where
  "between r x = ((of_char (fst r) :: nat) \<le> of_char x \<and> (of_char x :: nat) \<le> of_char (snd r))"

definition in_range :: "bool \<Rightarrow> char \<times> char \<Rightarrow> char \<Rightarrow> bool" where
  "in_range ic r x =
     (between r x \<or> (ic \<and> (between r (lower_char x) \<or> between r (upper_char x))))"

definition in_class :: "bool \<Rightarrow> (char \<times> char) list \<Rightarrow> char \<Rightarrow> bool" where
  "in_class ic rs x = list_ex (\<lambda>r. in_range ic r x) rs"

fun exactly :: "nat \<Rightarrow> (mstate \<Rightarrow> mstate list) \<Rightarrow> mstate \<Rightarrow> mstate list" where
  "exactly 0 f st = [st]"
| "exactly (Suc n) f st = concat (map (exactly n f) (f st))"

text \<open>
  Up to \<open>n\<close> further rounds, the longer runs first; a round that consumes nothing is not
  repeated.
\<close>

fun further :: "nat \<Rightarrow> (mstate \<Rightarrow> mstate list) \<Rightarrow> mstate \<Rightarrow> mstate list" where
  "further 0 f st = [st]"
| "further (Suc n) f st =
     concat (map (further n f) (filter (\<lambda>st'. fst st' \<noteq> fst st) (f st))) @ [st]"

fun starts_with :: "bool \<Rightarrow> string \<Rightarrow> string \<Rightarrow> bool" where
  "starts_with ic [] s = True"
| "starts_with ic (l # ls) [] = False"
| "starts_with ic (l # ls) (x # xs) = (lit_eq ic l x \<and> starts_with ic ls xs)"

fun matches :: "node \<Rightarrow> bool \<Rightarrow> mstate \<Rightarrow> mstate list" where
  "matches (Lit l) ic (p, s, caps) =
     (case s of [] \<Rightarrow> [] | x # xs \<Rightarrow> if lit_eq ic l x then [(Suc p, xs, caps)] else [])"
| "matches Dot ic (p, s, caps) =
     (case s of [] \<Rightarrow> [] | x # xs \<Rightarrow> if x \<noteq> newline then [(Suc p, xs, caps)] else [])"
| "matches Bol ic (p, s, caps) = (if p = 0 then [(p, s, caps)] else [])"
| "matches Eol ic (p, s, caps) = (if s = [] \<or> s = [newline] then [(p, s, caps)] else [])"
| "matches (Cls neg rs) ic (p, s, caps) =
     (case s of
        [] \<Rightarrow> []
      | x # xs \<Rightarrow> if in_class ic rs x \<noteq> neg then [(Suc p, xs, caps)] else [])"
| "matches Eps ic st = [st]"
| "matches (Seq a b) ic st = concat (map (matches b ic) (matches a ic st))"
| "matches (Alt a b) ic st = matches a ic st @ matches b ic st"
| "matches (Rep lo hi r) ic st =
     concat (map (\<lambda>st'. further (case hi of None \<Rightarrow> length (fst (snd st')) | Some h \<Rightarrow> h - lo)
                            (matches r ic) st')
                 (exactly lo (matches r ic) st))"
| "matches (Look pos r) ic (p, s, caps) =
     (case matches r ic (p, s, caps) of
        [] \<Rightarrow> if pos then [] else [(p, s, caps)]
      | (p', s', caps') # _ \<Rightarrow> if pos then [(p, s, caps')] else [])"
| "matches (Group None r) ic st = matches r ic st"
| "matches (Group (Some n) r) ic (p, s, caps) =
     map (\<lambda>(p', s', caps'). (p', s', (n, take (p' - p) s) # caps')) (matches r ic (p, s, caps))"
| "matches (Bref n) ic (p, s, caps) =
     (case map_of caps n of
        None \<Rightarrow> []
      | Some w \<Rightarrow>
          if starts_with ic w s then [(p + length w, drop (length w) s, caps)] else [])"

text \<open>\<open>Pattern.search\<close> tries every start position, from the left.\<close>

fun search_from :: "node \<Rightarrow> bool \<Rightarrow> nat \<Rightarrow> string \<Rightarrow> bool" where
  "search_from r ic p [] = (matches r ic (p, [], []) \<noteq> [])"
| "search_from r ic p (x # xs) =
     (matches r ic (p, x # xs, []) \<noteq> [] \<or> search_from r ic (Suc p) xs)"

definition re_compile :: re_module where
  "re_compile pattern ignore_case =
     (case parse pattern of
        Inl e \<Rightarrow> Inl e
      | Inr r \<Rightarrow>
          Inr \<lparr>search = search_from r ignore_case 0,
               fullmatch = (\<lambda>s. list_ex (\<lambda>st. fst (snd st) = []) (matches r ignore_case (0, s, [])))\<rparr>)"

section \<open>presets.py: the catalog\<close>

text \<open>
  The set of special characters, as pattern text: an opening bracket, the thirty-two
  punctuation characters of ASCII (the hyphen, the closing bracket, the apostrophe and
  the backslash each behind a backslash) and a closing bracket.
\<close>

definition SPECIAL_CHARS_REGEX :: string where
  "SPECIAL_CHARS_REGEX =
     ''[!@#$%^&*()_+'' @ [backslash] @ ''-=['' @ [backslash] @ '']{};'' @ [backslash, CHR 0x27]
       @ '':'' @ [CHR 0x22, backslash, backslash] @ ''|,.<>/?~`]''"

record preset =
  id' :: string
  regex :: "string option"
  description :: string

text \<open>The dictionary \<open>PRESETS\<close>, its keys in the order of the source.\<close>

definition PRESETS :: "(string \<times> preset) list" where
  "PRESETS =
     [(''min_length_8'',
       \<lparr>id' = ''ml8'', regex = Some ''^.{8,}$'',
        description = ''Passwords with a minimum length of 8 characters.''\<rparr>),
      (''min_length_12'',
       \<lparr>id' = ''ml12'', regex = Some ''^.{12,}$'',
        description = ''Passwords with a minimum length of 12 characters.''\<rparr>),
      (''has_uppercase'',
       \<lparr>id' = ''upper'', regex = Some ''[A-Z]'',
        description = ''Passwords containing at least one uppercase letter.''\<rparr>),
      (''has_lowercase'',
       \<lparr>id' = ''lower'', regex = Some ''[a-z]'',
        description = ''Passwords containing at least one lowercase letter.''\<rparr>),
      (''has_digit'',
       \<lparr>id' = ''digit'', regex = Some ''[0-9]'',
        description = ''Passwords containing at least one digit.''\<rparr>),
      (''has_special_char'',
       \<lparr>id' = ''special'', regex = Some SPECIAL_CHARS_REGEX,
        description = ''Passwords containing at least one special character (''
          @ SPECIAL_CHARS_REGEX @ '').''\<rparr>),
      (''has_consecutive_repeated_chars'',
       \<lparr>id' = ''consec'', regex = Some (''(.)'' @ [backslash] @ ''1''),
        description =
          ''Passwords with consecutive repeated characters (use --invert to exclude these).''\<rparr>),
      (''contains_common_pattern_password'',
       \<lparr>id' = ''cmnpwd'', regex = Some ''password'',
        description =
          ''Passwords containing the substring 'password' (use --invert and --ignore-case to exclude).''\<rparr>),
      (''in_dictionary'',
       \<lparr>id' = ''dict'', regex = None,
        description =
          ''Passwords found in a provided dictionary file (use --invert to exclude, requires --dictionary-file).''\<rparr>),
      (''strong_8_plus_all_types'',
       \<lparr>id' = ''s8all'',
        regex = Some (''^(?=.*[a-z])(?=.*[A-Z])(?=.*[0-9])(?=.*'' @ SPECIAL_CHARS_REGEX @ '').{8,}$''),
        description = ''Min 8 chars, 1 lower, 1 upper, 1 digit, 1 special.''\<rparr>),
      (''strong_12_plus_all_types'',
       \<lparr>id' = ''s12all'',
        regex = Some (''^(?=.*[a-z])(?=.*[A-Z])(?=.*[0-9])(?=.*'' @ SPECIAL_CHARS_REGEX @ '').{12,}$''),
        description = ''Min 12 chars, 1 lower, 1 upper, 1 digit, 1 special.''\<rparr>),
      (''strong_10_plus_3_of_4_types_LUD'',
       \<lparr>id' = ''s10lud'',
        regex = Some ''^(?=(?:.*[a-z]){1,})(?=(?:.*[A-Z]){1,})(?=(?:.*[0-9]){1,}).{10,}$'',
        description = ''Min 10 chars, at least 1 lower, 1 upper, 1 digit.''\<rparr>),
      (''only_lowercase'',
       \<lparr>id' = ''onlylow'', regex = Some ''^[a-z]+$'',
        description = ''Passwords consisting only of lowercase letters.''\<rparr>),
      (''only_uppercase'',
       \<lparr>id' = ''onlyup'', regex = Some ''^[A-Z]+$'',
        description = ''Passwords consisting only of uppercase letters.''\<rparr>),
      (''only_digits'',
       \<lparr>id' = ''onlydig'', regex = Some ''^[0-9]+$'',
        description = ''Passwords consisting only of digits.''\<rparr>),
      (''only_alphabetic'',
       \<lparr>id' = ''onlyalpha'', regex = Some ''^[a-zA-Z]+$'',
        description = ''Passwords consisting only of alphabetic characters.''\<rparr>),
      (''only_alphanumeric'',
       \<lparr>id' = ''onlyalnum'', regex = Some ''^[a-zA-Z0-9]+$'',
        description = ''Passwords consisting only of alphanumeric characters.''\<rparr>),
      (''starts_with_letter'',
       \<lparr>id' = ''startlet'', regex = Some ''^[a-zA-Z]'',
        description = ''Passwords starting with an alphabetic character.''\<rparr>),
      (''ends_with_digit'',
       \<lparr>id' = ''enddig'', regex = Some ''[0-9]$'',
        description = ''Passwords ending with a digit.''\<rparr>),
      (''no_digits'',
       \<lparr>id' = ''nodig'', regex = Some ''^[^0-9]*$'',
        description = ''Passwords containing no digits.''\<rparr>),
      (''no_letters'',
       \<lparr>id' = ''nolet'', regex = Some ''^[^a-zA-Z]*$'',
        description = ''Passwords containing no letters (alphabetic characters).''\<rparr>)]"

text \<open>
  The dictionary comprehension of line 116: one entry per rule, a later rule with the
  same id replacing the name stored for it.
\<close>

definition PRESET_ID_TO_NAME_MAP :: "(string \<times> string) list" where
  "PRESET_ID_TO_NAME_MAP =
     foldl (\<lambda>m (name, details). AList.update (id' details) name m) [] PRESETS"

definition ALL_PRESET_CHOICES :: "string list" where
  "ALL_PRESET_CHOICES = map fst PRESETS @ map fst PRESET_ID_TO_NAME_MAP"

definition get_preset_by_name_or_id :: "string \<Rightarrow> string option" where
  "get_preset_by_name_or_id identifier =
     (if identifier \<in> set (map fst PRESETS) then Some identifier
      else if identifier \<in> set (map fst PRESET_ID_TO_NAME_MAP)
        then map_of PRESET_ID_TO_NAME_MAP identifier
      else None)"

section \<open>cli.py: \<open>main\<close>\<close>

text \<open>
  The namespace \<open>parse_args\<close> returns: the lines of the opened word list, the
  identifiers after \<open>--presets\<close>, the text after \<open>--regex\<close>, the name of the output
  file (\<open>None\<close> for \<open>sys.stdout\<close>), the two flags, the lines of the opened dictionary
  file, and the listing flag. \<open>main\<close> is modelled from line 90 on, for every namespace,
  also those \<open>argparse\<close> would have refused; the two tests of \<open>sys.argv[1]\<close> before
  the parser is built (lines 22 to 27) and the parsing itself are not part of the model.
\<close>

record namespace =
  args_wordlist :: "string list"
  args_presets :: "string list option"
  args_regex :: "string option"
  args_output :: "string option"
  args_invert_match :: bool
  args_ignore_case :: bool
  args_dictionary_file :: "string list option"
  args_list_presets :: bool

text \<open>
  What the process has done when it ends: its exit status, the strings written to the
  output file, what was printed to \<open>sys.stdout\<close> and to \<open>sys.stderr\<close>.
\<close>

record outcome =
  status :: nat
  sink :: "string list"
  stdout :: "string list"
  stderr :: "string list"

text \<open>
  \<open>parser.error(message)\<close> prints the usage and the message to \<open>sys.stderr\<close> and exits
  with status 2; the usage text is left out.
\<close>

definition parser_error :: "string \<Rightarrow> system_exit" where
  "parser_error message = SystemExit 2 [message]"

definition ljust :: "nat \<Rightarrow> string \<Rightarrow> string" where
  "ljust n s = s @ replicate (n - length s) (CHR '' '')"

definition list_presets_info :: "string list" where
  "list_presets_info =
     [''Available presets (--presets ID_OR_NAME ...):'',
      ljust 8 ''ID'' @ '' '' @ ljust 30 ''Name'' @ '' '' @ ''Description'',
      replicate 7 (CHR ''-'') @ '' '' @ replicate 29 (CHR ''-'') @ '' '' @ replicate 40 (CHR ''-'')]
     @ map (\<lambda>(name, details). ljust 8 (id' details) @ '' '' @ ljust 30 name @ '' ''
              @ description details) PRESETS"

text \<open>Lines 106 to 115: the identifiers are resolved, a name is taken once.\<close>

fun presets_loop :: "string list \<Rightarrow> string list \<Rightarrow> bool \<Rightarrow> system_exit + (string list \<times> bool)" where
  "presets_loop [] chosen_preset_full_names uses_in_dictionary_preset =
     Inr (chosen_preset_full_names, uses_in_dictionary_preset)"
| "presets_loop (preset_identifier # rest) chosen_preset_full_names uses_in_dictionary_preset =
     (case get_preset_by_name_or_id preset_identifier of
        None \<Rightarrow> Inl (parser_error (''Unknown preset identifier: '' @ preset_identifier))
      | Some full_name \<Rightarrow>
          if full_name = [] then Inl (parser_error (''Unknown preset identifier: '' @ preset_identifier))
          else presets_loop rest
                 (if full_name \<notin> set chosen_preset_full_names
                  then chosen_preset_full_names @ [full_name] else chosen_preset_full_names)
                 (if full_name = ''in_dictionary'' then True else uses_in_dictionary_preset))"

text \<open>
  Lines 132 to 137: the patterns of the chosen rules; a rule without pattern adds none.
  A name missing from \<open>PRESETS\<close> would raise \<open>KeyError\<close>, which ends the process with
  status 1.
\<close>

fun patterns_loop :: "string list \<Rightarrow> string list \<Rightarrow> system_exit + string list" where
  "patterns_loop [] active_regex_patterns = Inr active_regex_patterns"
| "patterns_loop (full_name # rest) active_regex_patterns =
     (case map_of PRESETS full_name of
        None \<Rightarrow> Inl (SystemExit 1 [''KeyError: '' @ full_name])
      | Some preset_obj \<Rightarrow>
          (case regex preset_obj of
             None \<Rightarrow> patterns_loop rest active_regex_patterns
           | Some rx \<Rightarrow>
               if rx = [] then patterns_loop rest active_regex_patterns
               else patterns_loop rest (active_regex_patterns @ [rx])))"

text \<open>
  Lines 97 to 153: the active patterns, the active dictionary file and the warnings
  printed on the way, or the exit.
\<close>

definition active_criteria ::
  "namespace \<Rightarrow> system_exit + (string list \<times> string list option \<times> string list)" where
  "active_criteria args =
     (if args_presets args \<noteq> None \<and> args_presets args \<noteq> Some [] then
        (case presets_loop (the (args_presets args)) [] False of
           Inl x \<Rightarrow> Inl x
         | Inr (chosen_preset_full_names, uses_in_dictionary_preset) \<Rightarrow>
             if uses_in_dictionary_preset \<and> args_dictionary_file args = None then
               Inl (parser_error
                 ''--dictionary-file is required when using the 'in_dictionary' (or 'dict') preset.'')
             else
               (let active_dictionary_file =
                      (if uses_in_dictionary_preset then args_dictionary_file args else None);
                    w1 = (if \<not> uses_in_dictionary_preset \<and> args_dictionary_file args \<noteq> None
                          then [''Warning: --dictionary-file is provided but 'in_dictionary' (or 'dict') preset is not selected. The dictionary file will be ignored.'']
                          else [])
                in case patterns_loop chosen_preset_full_names [] of
                     Inl x \<Rightarrow> Inl (SystemExit (exit_code x) (w1 @ diagnostics x))
                   | Inr active_regex_patterns \<Rightarrow>
                       Inr (active_regex_patterns, active_dictionary_file,
                            w1 @ (if active_regex_patterns = [] \<and> \<not> uses_in_dictionary_preset
                                  then [''Warning: No effective filter criteria selected from presets.'']
                                  else []))))
      else if args_regex args \<noteq> None \<and> args_regex args \<noteq> Some [] then
        Inr ([the (args_regex args)], None,
             if args_dictionary_file args \<noteq> None
             then [''Warning: --dictionary-file is ignored when using custom --regex.'']
             else [])
      else Inr ([], None, []))"

text \<open>
  \<open>main\<close> after \<open>parse_args\<close>. The word list is an open file, which Python counts as
  true, so the exit of lines 93 to 95 is never taken.
\<close>

definition main :: "re_module \<Rightarrow> namespace \<Rightarrow> outcome" where
  "main re args =
     (if args_list_presets args
      then \<lparr>status = 0, sink = [], stdout = list_presets_info, stderr = []\<rparr>
      else
        (case active_criteria args of
           Inl x \<Rightarrow> \<lparr>status = exit_code x, sink = [], stdout = [], stderr = diagnostics x\<rparr>
         | Inr (active_regex_patterns, active_dictionary_file, warnings) \<Rightarrow>
             if active_regex_patterns = [] \<and> active_dictionary_file = None then
               \<lparr>status = exit_code (parser_error ''No filtering criteria specified. Use --presets or --regex.''),
                sink = [], stdout = [],
                stderr = warnings
                  @ diagnostics (parser_error ''No filtering criteria specified. Use --presets or --regex.'')\<rparr>
             else
               (case filter_passwords re (args_wordlist args) (args_output args)
                       (Some active_regex_patterns) active_dictionary_file
                       (args_invert_match args) (args_ignore_case args) of
                  Inl x \<Rightarrow>
                    \<lparr>status = exit_code x, sink = [], stdout = [],
                     stderr = warnings @ diagnostics x\<rparr>
                | Inr r \<Rightarrow>
                    \<lparr>status = 0, sink = written r, stdout = [],
                     stderr = warnings @ printed r\<rparr>)))"

section \<open>Notions used in the statements and proofs\<close>

text \<open>The candidates of a word list: its lines trimmed, the blank ones left out.\<close>

definition candidates :: "string list \<Rightarrow> string list" where
  "candidates ls = filter (\<lambda>p. p \<noteq> []) (map strip ls)"

text \<open>
  Whether a candidate passes the rule of the catalog with the given name, taken alone:
  the truth value of \<open>comp_rx.search(password)\<close> for the compiled pattern of the rule.
  \<open>None\<close> where the catalog has no such rule, the rule has no pattern, or the pattern
  does not compile.
\<close>

definition rule_satisfied :: "bool \<Rightarrow> string \<Rightarrow> string \<Rightarrow> bool option" where
  "rule_satisfied ignore_case name candidate =
     (case Option.bind (map_of PRESETS name) regex of
        None \<Rightarrow> None
      | Some pattern \<Rightarrow>
          (case re_compile pattern ignore_case of
             Inl e \<Rightarrow> None
           | Inr rx \<Rightarrow> Some (search rx candidate)))"

text \<open>
  The part of a string before its first line feed, and whether the string ends there
  or with that line feed: the dot matches no line feed, and the end anchor matches at
  the end and before a final line feed.
\<close>

definition first_line :: "string \<Rightarrow> string" where
  "first_line s = takeWhile (\<lambda>c. c \<noteq> newline) s"

definition ends_line :: "string \<Rightarrow> bool" where
  "ends_line s =
     (dropWhile (\<lambda>c. c \<noteq> newline) s = [] \<or> dropWhile (\<lambda>c. c \<noteq> newline) s = [newline])"

text \<open>
  The members of the set of special characters, and the parsed form of the two strong
  patterns, which differ in the least length only.
\<close>

definition special_chars :: string where
  "special_chars =
     ''!@#$%^&*()_+-=[]{};'' @ [CHR 0x27] @ '':'' @ [CHR 0x22, CHR 0x5C] @ ''|,.<>/?~`''"

definition strong_node :: "nat \<Rightarrow> node" where
  "strong_node n =
     Seq Bol (Seq (Look True (Seq (Rep 0 None Dot) (Seq (Cls False [(CHR ''a'', CHR ''z'')]) Eps)))
       (Seq (Look True (Seq (Rep 0 None Dot) (Seq (Cls False [(CHR ''A'', CHR ''Z'')]) Eps)))
         (Seq (Look True (Seq (Rep 0 None Dot) (Seq (Cls False [(CHR ''0'', CHR ''9'')]) Eps)))
           (Seq (Look True (Seq (Rep 0 None Dot)
                   (Seq (Cls False (map (\<lambda>c. (c, c)) special_chars)) Eps)))
             (Seq (Rep n None Dot) (Seq Eol Eps))))))"

text \<open>
  The patterns a rule of the catalog adds to the active patterns; whether the rule can
  be used in a run (its dictionary file is there, its patterns compile); and whether a
  candidate meets the rule.
\<close>

definition preset_patterns :: "string \<Rightarrow> string list" where
  "preset_patterns n =
     (case map_of PRESETS n of
        None \<Rightarrow> []
      | Some d \<Rightarrow> (case regex d of None \<Rightarrow> [] | Some rx \<Rightarrow> if rx = [] then [] else [rx]))"

definition rule_usable :: "re_module \<Rightarrow> bool \<Rightarrow> string list option \<Rightarrow> string \<Rightarrow> bool" where
  "rule_usable re ic dfile n =
     ((n = ''in_dictionary'' \<longrightarrow> dfile \<noteq> None)
      \<and> (\<forall>pat\<in>set (preset_patterns n). \<exists>rx. re pat ic = Inr rx))"

definition rule_holds ::
  "re_module \<Rightarrow> bool \<Rightarrow> string list option \<Rightarrow> string \<Rightarrow> string \<Rightarrow> bool" where
  "rule_holds re ic dfile n p =
     ((n = ''in_dictionary'' \<longrightarrow> (if ic then lower p else p) \<in> dictionary_words_of ic dfile)
      \<and> (\<forall>pat\<in>set (preset_patterns n). search (projr (re pat ic)) p))"

section \<open>Properties of the helper functions\<close>

declare str_nat.simps [simp del]

subsection \<open>Trimming\<close>

lemma dropWhile_hd: "dropWhile P xs \<noteq> [] \<Longrightarrow> \<not> P (hd (dropWhile P xs))"
  by (metis hd_dropWhile)

lemma strip_Nil_iff: "strip s = [] \<longleftrightarrow> (\<forall>c\<in>set s. isspace c)"
proof (cases "dropWhile isspace s = []")
  case True
  have "strip s = []" unfolding strip_def True by simp
  moreover have "\<forall>c\<in>set s. isspace c" using True by (simp add: dropWhile_eq_Nil_conv)
  ultimately show ?thesis by simp
next
  case False
  then have "\<not> isspace (hd (dropWhile isspace s))" by (rule dropWhile_hd)
  moreover have "hd (dropWhile isspace s) \<in> set (dropWhile isspace s)" using False by simp
  ultimately have "strip s \<noteq> []"
    by (auto simp: strip_def dropWhile_eq_Nil_conv)
  moreover have "\<not> (\<forall>c\<in>set s. isspace c)" using False by (simp add: dropWhile_eq_Nil_conv)
  ultimately show ?thesis by simp
qed

lemma strip_hd: "strip s \<noteq> [] \<Longrightarrow> \<not> isspace (hd (strip s))"
proof -
  assume ne: "strip s \<noteq> []"
  let ?d = "dropWhile isspace s"
  have d: "?d \<noteq> []"
  proof
    assume e: "?d = []"
    have "strip s = []" unfolding strip_def e by simp
    with ne show False by simp
  qed
  have "\<not> isspace (hd ?d)" using d by (rule dropWhile_hd)
  moreover have "\<exists>ys. ?d = strip s @ ys"
    unfolding strip_def
    by (metis rev_rev_ident rev_append takeWhile_dropWhile_id)
  ultimately show ?thesis using ne by (auto simp: hd_append)
qed

lemma strip_last: "strip s \<noteq> [] \<Longrightarrow> \<not> isspace (last (strip s))"
proof -
  assume ne: "strip s \<noteq> []"
  let ?d = "dropWhile isspace (rev (dropWhile isspace s))"
  have "?d \<noteq> []" using ne by (simp add: strip_def)
  then have "\<not> isspace (hd ?d)" by (rule dropWhile_hd)
  then show ?thesis using ne by (simp add: strip_def last_rev)
qed

lemma strip_fixed:
  assumes "t \<noteq> []" "\<not> isspace (hd t)" "\<not> isspace (last t)" "\<forall>c\<in>set w. isspace c"
  shows "strip (t @ w) = t"
proof -
  have 1: "dropWhile isspace (t @ w) = t @ w"
    using assms(1,2) by (cases t) auto
  have 2: "dropWhile isspace (rev w @ rev t) = dropWhile isspace (rev t)"
    by (rule dropWhile_append2) (use assms(4) in auto)
  have 3: "dropWhile isspace (rev t) = rev t"
    using assms(1,3) by (cases "rev t") (auto simp: last_rev[symmetric] hd_rev)
  show ?thesis by (simp add: strip_def 1 2 3)
qed

lemma strip_written: "strip s \<noteq> [] \<Longrightarrow> strip (strip s @ [newline]) = strip s"
proof -
  assume ne: "strip s \<noteq> []"
  have "isspace newline" by (simp add: isspace_def newline_def)
  then have "\<forall>c\<in>set [newline]. isspace c" by simp
  with ne strip_hd[OF ne] strip_last[OF ne] show ?thesis by (rule strip_fixed)
qed

subsection \<open>The loop and the evaluator\<close>

lemma filter_loop_written:
  "written (filter_loop rxs a ws iv ic ls st) =
     written st @ map (\<lambda>p. p @ [newline])
       (filter (\<lambda>p. all_criteria_met rxs a ws ic p \<noteq> iv) (candidates ls))"
  by (induction ls arbitrary: st) (auto simp: Let_def candidates_def)

lemma filter_loop_total:
  "count_total_processed_lines (filter_loop rxs a ws iv ic ls st) =
     count_total_processed_lines st + length ls"
  by (induction ls arbitrary: st) (auto simp: Let_def)

lemma filter_loop_valid:
  "count_valid_passwords (filter_loop rxs a ws iv ic ls st) =
     count_valid_passwords st + length (candidates ls)"
  by (induction ls arbitrary: st) (auto simp: Let_def candidates_def)

lemma filter_loop_matched:
  "count_matched (filter_loop rxs a ws iv ic ls st) =
     count_matched st + length (filter (\<lambda>p. all_criteria_met rxs a ws ic p \<noteq> iv) (candidates ls))"
  by (induction ls arbitrary: st) (auto simp: Let_def candidates_def)

lemma regex_loop_iff: "regex_loop rxs p \<longleftrightarrow> (\<forall>rx\<in>set rxs. search rx p)"
  by (induction rxs) auto

lemma all_criteria_met_iff:
  "all_criteria_met rxs a ws ic p \<longleftrightarrow>
     ((a \<longrightarrow> (if ic then lower p else p) \<in> ws) \<and> (\<forall>rx\<in>set rxs. search rx p))"
  by (auto simp: all_criteria_met_def Let_def regex_loop_iff)

lemma candidates_mem: "p \<in> set (candidates ls) \<longleftrightarrow> p \<noteq> [] \<and> p \<in> strip ` set ls"
  by (auto simp: candidates_def)

lemma candidates_append: "candidates (xs @ ys) = candidates xs @ candidates ys"
  by (simp add: candidates_def)

lemma candidates_blank: "\<forall>c\<in>set raw. isspace c \<Longrightarrow> candidates (raw # ys) = candidates ys"
  by (simp add: candidates_def strip_Nil_iff)

lemma candidates_written:
  "candidates (map (\<lambda>p. p @ [newline]) (filter P (candidates ls))) = filter P (candidates ls)"
proof -
  have "\<And>cs. \<forall>c\<in>set cs. c \<noteq> [] \<and> strip (c @ [newline]) = c \<Longrightarrow>
      candidates (map (\<lambda>p. p @ [newline]) (filter P cs)) = filter P cs"
  proof -
    fix cs :: "string list"
    show "\<forall>c\<in>set cs. c \<noteq> [] \<and> strip (c @ [newline]) = c \<Longrightarrow>
      candidates (map (\<lambda>p. p @ [newline]) (filter P cs)) = filter P cs"
      by (induction cs) (auto simp: candidates_def)
  qed
  moreover have "\<forall>c\<in>set (candidates ls). c \<noteq> [] \<and> strip (c @ [newline]) = c"
    by (auto simp: candidates_def strip_written)
  ultimately show ?thesis by blast
qed

lemma summary_printed: "summary out (r\<lparr>printed := x\<rparr>) = summary out r"
  by (simp add: summary_def split: option.split)

lemma filter_passwords_Inr:
  assumes "compiled_regexes_of re ic pats = Inr rxs"
  shows "\<exists>r. filter_passwords re wl out pats dict iv ic = Inr r
     \<and> written r = map (\<lambda>p. p @ [newline])
          (filter (\<lambda>p. all_criteria_met rxs (dict \<noteq> None) (dictionary_words_of ic dict) ic p \<noteq> iv)
             (candidates wl))
     \<and> count_total_processed_lines r = length wl
     \<and> count_valid_passwords r = length (candidates wl)
     \<and> count_matched r = length (filter (\<lambda>p. all_criteria_met rxs (dict \<noteq> None) (dictionary_words_of ic dict) ic p \<noteq> iv)
             (candidates wl))
     \<and> printed r = [summary out r]"
  using assms
  by (simp add: filter_passwords_def Let_def filter_loop_written filter_loop_total
      filter_loop_valid filter_loop_matched summary_printed)

lemma filter_passwords_Inl:
  assumes "compiled_regexes_of re ic pats = Inl x"
  shows "filter_passwords re wl out pats dict iv ic = Inl x"
  using assms by (simp add: filter_passwords_def)

subsection \<open>Compiling with the model of \<open>re\<close>\<close>

lemma re_compile_parsed:
  "parse pattern = Inr r \<Longrightarrow> \<exists>rx. re_compile pattern ic = Inr rx \<and> search rx = search_from r ic 0"
  by (simp add: re_compile_def)

lemma compile_patterns_single:
  "re pattern ic = Inr rx \<Longrightarrow> compiled_regexes_of re ic (Some [pattern]) = Inr [rx]"
  by (simp add: compiled_regexes_of_def)

subsection \<open>The selection of \<open>main\<close>\<close>

lemma empty_selection_no_criteria:
  assumes "args_presets args = None \<or> args_presets args = Some []"
    and "args_regex args = None \<or> args_regex args = Some []"
  shows "active_criteria args = Inr ([], None, [])"
  using assms by (auto simp: active_criteria_def)

section \<open>Properties of the catalog\<close>

lemma PRESET_ID_TO_NAME_MAP_eq:
  "PRESET_ID_TO_NAME_MAP = map (\<lambda>(name, details). (id' details, name)) PRESETS"
  by (simp add: PRESET_ID_TO_NAME_MAP_def PRESETS_def)

lemma PRESETS_resolve:
  "list_all (\<lambda>(name, details).
       get_preset_by_name_or_id name = Some name
     \<and> get_preset_by_name_or_id (id' details) = Some name) PRESETS"
  unfolding get_preset_by_name_or_id_def PRESET_ID_TO_NAME_MAP_eq
  by (simp add: PRESETS_def)

lemma resolve_known:
  "(n, d) \<in> set PRESETS \<Longrightarrow>
     get_preset_by_name_or_id n = Some n \<and> get_preset_by_name_or_id (id' d) = Some n"
  using PRESETS_resolve by (auto simp: list_all_iff)

lemma resolve_Some:
  assumes "get_preset_by_name_or_id identifier = Some n"
  shows "\<exists>d. (n, d) \<in> set PRESETS \<and> (identifier = n \<or> identifier = id' d)"
proof (cases "identifier \<in> set (map fst PRESETS)")
  case True
  then have "n = identifier" using assms by (simp add: get_preset_by_name_or_id_def)
  moreover obtain d where "(identifier, d) \<in> set PRESETS" using True by auto
  ultimately show ?thesis by blast
next
  case False
  then have "map_of PRESET_ID_TO_NAME_MAP identifier = Some n"
    using assms by (simp add: get_preset_by_name_or_id_def split: if_splits)
  then have "(identifier, n) \<in> set PRESET_ID_TO_NAME_MAP" by (rule map_of_SomeD)
  then obtain d where "(n, d) \<in> set PRESETS" "identifier = id' d"
    unfolding PRESET_ID_TO_NAME_MAP_eq by auto
  then show ?thesis by blast
qed

section \<open>Properties of \<open>main\<close> with presets\<close>

lemma compile_patterns_all:
  "\<forall>p\<in>set ps. \<exists>rx. re p ic = Inr rx \<Longrightarrow>
     compile_patterns re ic ps = Inr (map (\<lambda>p. projr (re p ic)) ps)"
  by (induction ps) auto

lemma compile_patterns_some_fail:
  "\<not> (\<forall>p\<in>set ps. \<exists>rx. re p ic = Inr rx) \<Longrightarrow> \<exists>x. compile_patterns re ic ps = Inl x"
proof (induction ps)
  case Nil
  then show ?case by simp
next
  case (Cons p ps)
  show ?case
  proof (cases "re p ic")
    case (Inl e)
    then show ?thesis by simp
  next
    case (Inr rx)
    then have "\<not> (\<forall>p\<in>set ps. \<exists>rx. re p ic = Inr rx)" using Cons.prems by auto
    then obtain x where "compile_patterns re ic ps = Inl x" using Cons.IH by blast
    then show ?thesis using Inr by simp
  qed
qed

lemma patterns_loop_known:
  "\<forall>n\<in>set chosen. map_of PRESETS n \<noteq> None \<Longrightarrow>
     patterns_loop chosen acc = Inr (acc @ concat (map preset_patterns chosen))"
proof (induction chosen arbitrary: acc)
  case Nil
  show ?case by simp
next
  case (Cons n chosen)
  then obtain d where d: "map_of PRESETS n = Some d" by auto
  have ih: "\<And>acc. patterns_loop chosen acc = Inr (acc @ concat (map preset_patterns chosen))"
    using Cons by simp
  have pn: "preset_patterns n = (case regex d of None \<Rightarrow> [] | Some rx \<Rightarrow> if rx = [] then [] else [rx])"
    by (simp add: preset_patterns_def d)
  show ?case
    by (cases "regex d") (simp_all add: d ih pn)
qed

lemma no_pattern_is_dictionary:
  "list_all (\<lambda>(n, d). preset_patterns n = [] \<longrightarrow> n = ''in_dictionary'') PRESETS"
  by (simp add: PRESETS_def preset_patterns_def SPECIAL_CHARS_REGEX_def)

lemma names_not_empty: "list_all (\<lambda>(n, d). n \<noteq> []) PRESETS"
  by (simp add: PRESETS_def)

lemma main_runs:
  assumes "\<not> args_list_presets args" "active_criteria args = Inr (pats, dict, w)"
    "\<not> (pats = [] \<and> dict = None)"
  shows "main re args =
      (case filter_passwords re (args_wordlist args) (args_output args) (Some pats) dict
               (args_invert_match args) (args_ignore_case args) of
         Inl x \<Rightarrow> \<lparr>status = exit_code x, sink = [], stdout = [], stderr = w @ diagnostics x\<rparr>
       | Inr r \<Rightarrow> \<lparr>status = 0, sink = written r, stdout = [], stderr = w @ printed r\<rparr>)"
  using assms by (auto simp: main_def)

lemma main_presets_sink:
  assumes nl: "\<not> args_list_presets args"
    and ps: "args_presets args = Some ps" "ps \<noteq> []"
    and loop: "presets_loop ps [] False = Inr (chosen, ''in_dictionary'' \<in> set chosen)"
    and known: "\<forall>n\<in>set chosen. (n, the (map_of PRESETS n)) \<in> set PRESETS"
    and ne: "chosen \<noteq> []"
    and iv: "\<not> args_invert_match args"
  shows "sink (main re args) =
     (if \<forall>n\<in>set chosen. rule_usable re (args_ignore_case args) (args_dictionary_file args) n
      then map (\<lambda>p. p @ [newline])
             (filter (\<lambda>p. \<forall>n\<in>set chosen.
                        rule_holds re (args_ignore_case args) (args_dictionary_file args) n p)
                (candidates (args_wordlist args)))
      else [])"
proof -
  let ?ic = "args_ignore_case args"
  let ?df = "args_dictionary_file args"
  let ?uses = "''in_dictionary'' \<in> set chosen"
  let ?pats = "concat (map preset_patterns chosen)"
  have known': "\<forall>n\<in>set chosen. map_of PRESETS n \<noteq> None"
    using known by (metis map_of_eq_None_iff fst_conv image_eqI)
  have pl: "patterns_loop chosen [] = Inr ?pats"
    using patterns_loop_known[OF known', of "[]"] by simp
  show ?thesis
  proof (cases "?uses \<and> ?df = None")
    case True
    then have "\<not> rule_usable re ?ic ?df ''in_dictionary''" by (simp add: rule_usable_def)
    then have nu: "\<not> (\<forall>n\<in>set chosen. rule_usable re ?ic ?df n)" using True by blast
    have "active_criteria args = Inl (parser_error
        ''--dictionary-file is required when using the 'in_dictionary' (or 'dict') preset.'')"
      using True ps loop by (simp add: active_criteria_def)
    then have s: "sink (main re args) = []" using nl by (simp add: main_def)
    show ?thesis by (simp only: s if_not_P[OF nu])
  next
    case False
    let ?dict = "if ?uses then ?df else None"
    have dn: "(?dict \<noteq> None) = ?uses" using False by auto
    obtain w where ac: "active_criteria args = Inr (?pats, ?dict, w)"
      using False ps loop pl by (simp add: active_criteria_def Let_def)
    have nonzero: "\<not> (?pats = [] \<and> ?dict = None)"
    proof
      assume z: "?pats = [] \<and> ?dict = None"
      obtain n where n: "n \<in> set chosen" using ne by (cases chosen) auto
      then have "preset_patterns n = []" using z by auto
      moreover have "(n, the (map_of PRESETS n)) \<in> set PRESETS" using known n by blast
      ultimately have "n = ''in_dictionary''"
        using no_pattern_is_dictionary by (auto simp: list_all_iff)
      then have "?uses" using n by simp
      then show False using z dn by simp
    qed
    have m: "main re args =
      (case filter_passwords re (args_wordlist args) (args_output args) (Some ?pats) ?dict
               (args_invert_match args) ?ic of
         Inl x \<Rightarrow> \<lparr>status = exit_code x, sink = [], stdout = [], stderr = w @ diagnostics x\<rparr>
       | Inr r \<Rightarrow> \<lparr>status = 0, sink = written r, stdout = [], stderr = w @ printed r\<rparr>)"
      using nl ac nonzero by (rule main_runs)
    show ?thesis
    proof (cases "\<forall>p\<in>set ?pats. \<exists>rx. re p ?ic = Inr rx")
      case True
      let ?rxs = "map (\<lambda>p. projr (re p ?ic)) ?pats"
      have c: "compiled_regexes_of re ?ic (Some ?pats) = Inr ?rxs"
        using compile_patterns_all[of ?pats re ?ic, OF True] by (simp add: compiled_regexes_of_def)
      obtain r where r: "filter_passwords re (args_wordlist args) (args_output args) (Some ?pats) ?dict
               (args_invert_match args) ?ic = Inr r"
        "written r = map (\<lambda>p. p @ [newline])
          (filter (\<lambda>p. all_criteria_met ?rxs (?dict \<noteq> None) (dictionary_words_of ?ic ?dict) ?ic p
                        \<noteq> args_invert_match args)
             (candidates (args_wordlist args)))"
        using filter_passwords_Inr[OF c] by blast
      have us: "\<forall>n\<in>set chosen. rule_usable re ?ic ?df n"
        using True False by (auto simp: rule_usable_def)
      have eq: "\<And>p. all_criteria_met ?rxs (?dict \<noteq> None) (dictionary_words_of ?ic ?dict) ?ic p
          \<longleftrightarrow> (\<forall>n\<in>set chosen. rule_holds re ?ic ?df n p)"
        unfolding all_criteria_met_iff dn by (auto simp: rule_holds_def)
      have "sink (main re args) = written r" unfolding m r(1) by simp
      then show ?thesis using us iv unfolding r(2) eq by simp
    next
      case False
      then obtain x where "compile_patterns re ?ic ?pats = Inl x"
        using compile_patterns_some_fail[of ?pats re ?ic] by blast
      moreover have "?pats \<noteq> []"
      proof
        assume e: "?pats = []"
        have "\<forall>p\<in>set ?pats. \<exists>rx. re p ?ic = Inr rx" unfolding e by simp
        with False show False by blast
      qed
      ultimately have "compiled_regexes_of re ?ic (Some ?pats) = Inl x"
        by (simp add: compiled_regexes_of_def)
      then have "filter_passwords re (args_wordlist args) (args_output args) (Some ?pats) ?dict
               (args_invert_match args) ?ic = Inl x"
        by (rule filter_passwords_Inl)
      then have s: "sink (main re args) = []" unfolding m by simp
      have nu: "\<not> (\<forall>n\<in>set chosen. rule_usable re ?ic ?df n)"
        using False by (auto simp: rule_usable_def)
      show ?thesis by (simp only: s if_not_P[OF nu])
    qed
  qed
qed

lemma distinct_names: "distinct (map fst PRESETS)"
  by (simp add: PRESETS_def)

lemma resolved_name:
  assumes "get_preset_by_name_or_id identifier = Some n"
  shows "n \<noteq> []" "(n, the (map_of PRESETS n)) \<in> set PRESETS"
proof -
  obtain d where d: "(n, d) \<in> set PRESETS" using resolve_Some[OF assms] by blast
  then show "n \<noteq> []" using names_not_empty by (auto simp: list_all_iff)
  have "map_of PRESETS n = Some d" using d distinct_names by simp
  then show "(n, the (map_of PRESETS n)) \<in> set PRESETS" using d by simp
qed

lemma newline_inj: "inj (\<lambda>p. p @ [newline])"
  by (simp add: inj_on_def)

lemma sink_unresolved:
  assumes "presets_loop ps [] False = Inl x" "args_presets args = Some ps" "ps \<noteq> []"
  shows "sink (main re args) = []"
  using assms by (simp add: main_def active_criteria_def)

section \<open>Properties of the model of \<open>re\<close>\<close>

subsection \<open>Runs of the dot\<close>

lemma first_line_Nil [simp]: "first_line [] = []"
  by (simp add: first_line_def)

lemma first_line_Cons:
  "first_line (x # xs) = (if x = newline then [] else x # first_line xs)"
  by (simp add: first_line_def)

lemma length_first_line_le: "length (first_line s) \<le> length s"
  by (simp add: first_line_def length_takeWhile_le)

lemma exactly_Dot:
  "exactly n (matches Dot ic) (p, s, c) =
     (if n \<le> length (first_line s) then [(p + n, drop n s, c)] else [])"
proof (induction n arbitrary: p s)
  case 0
  show ?case by simp
next
  case (Suc n)
  show ?case
  proof (cases s)
    case Nil
    then show ?thesis by simp
  next
    case (Cons x xs)
    then show ?thesis using Suc.IH[of "Suc p" xs] by (simp add: first_line_Cons)
  qed
qed

lemma further_Dot:
  "length (first_line s) \<le> k \<Longrightarrow>
   set (further k (matches Dot ic) (p, s, c)) = {(p + j, drop j s, c) | j. j \<le> length (first_line s)}"
proof (induction k arbitrary: p s)
  case 0
  then show ?case by simp
next
  case (Suc k)
  show ?case
  proof (cases s)
    case Nil
    then show ?thesis by simp
  next
    case (Cons x xs)
    show ?thesis
    proof (cases "x = newline")
      case True
      then show ?thesis using Cons by (simp add: first_line_Cons)
    next
      case False
      have le: "length (first_line xs) \<le> k"
        using Suc.prems Cons False by (simp add: first_line_Cons)
      have ih: "set (further k (matches Dot ic) (Suc p, xs, c))
                  = {(Suc p + j, drop j xs, c) | j. j \<le> length (first_line xs)}"
        using Suc.IH[OF le] .
      have "set (further (Suc k) (matches Dot ic) (p, s, c))
              = insert (p, s, c) {(Suc p + j, drop j xs, c) | j. j \<le> length (first_line xs)}"
        using Cons False ih by simp
      also have "\<dots> = {(p + j, drop j s, c) | j. j \<le> length (first_line s)}"
      proof (rule set_eqI, rule iffI)
        fix st
        assume "st \<in> insert (p, s, c) {(Suc p + j, drop j xs, c) | j. j \<le> length (first_line xs)}"
        then consider "st = (p, s, c)" | j where "st = (Suc p + j, drop j xs, c)" "j \<le> length (first_line xs)"
          by blast
        then show "st \<in> {(p + j, drop j s, c) | j. j \<le> length (first_line s)}"
        proof cases
          case 1
          then have "st = (p + 0, drop 0 s, c)" by simp
          then show ?thesis by blast
        next
          case 2
          then have "st = (p + Suc j, drop (Suc j) s, c)" "Suc j \<le> length (first_line s)"
            using Cons False by (simp_all add: first_line_Cons)
          then show ?thesis by blast
        qed
      next
        fix st
        assume "st \<in> {(p + j, drop j s, c) | j. j \<le> length (first_line s)}"
        then obtain j where j: "st = (p + j, drop j s, c)" "j \<le> length (first_line s)" by blast
        show "st \<in> insert (p, s, c) {(Suc p + j, drop j xs, c) | j. j \<le> length (first_line xs)}"
        proof (cases j)
          case 0
          then show ?thesis using j by simp
        next
          case (Suc i)
          then have "st = (Suc p + i, drop i xs, c)" "i \<le> length (first_line xs)"
            using j Cons False by (simp_all add: first_line_Cons)
          then show ?thesis by blast
        qed
      qed
      finally show ?thesis .
    qed
  qed
qed

lemma first_line_drop:
  "n \<le> length (first_line s) \<Longrightarrow> length (first_line (drop n s)) = length (first_line s) - n"
proof (induction n arbitrary: s)
  case 0
  show ?case by simp
next
  case (Suc n)
  then show ?case by (cases s) (auto simp: first_line_Cons split: if_splits)
qed

lemma rep_Dot:
  "set (matches (Rep lo None Dot) ic (p, s, c))
     = {(p + j, drop j s, c) | j. lo \<le> j \<and> j \<le> length (first_line s)}"
proof (cases "lo \<le> length (first_line s)")
  case False
  then show ?thesis by (auto simp: exactly_Dot)
next
  case True
  have fuel: "length (first_line (drop lo s)) \<le> length (drop lo s)"
    by (rule length_first_line_le)
  have "set (matches (Rep lo None Dot) ic (p, s, c))
          = set (further (length (drop lo s)) (matches Dot ic) (p + lo, drop lo s, c))"
    using True by (simp add: exactly_Dot)
  also have "\<dots> = {(p + lo + j, drop j (drop lo s), c) | j. j \<le> length (first_line (drop lo s))}"
    using further_Dot[OF fuel] .
  also have "\<dots> = {(p + j, drop j s, c) | j. lo \<le> j \<and> j \<le> length (first_line s)}"
  proof (rule set_eqI, rule iffI)
    fix st
    assume "st \<in> {(p + lo + j, drop j (drop lo s), c) | j. j \<le> length (first_line (drop lo s))}"
    then obtain j where "st = (p + lo + j, drop j (drop lo s), c)" "j \<le> length (first_line (drop lo s))"
      by blast
    then have "st = (p + (lo + j), drop (lo + j) s, c)" "lo \<le> lo + j" "lo + j \<le> length (first_line s)"
      using True by (simp_all add: first_line_drop add.commute)
    then show "st \<in> {(p + j, drop j s, c) | j. lo \<le> j \<and> j \<le> length (first_line s)}" by blast
  next
    fix st
    assume "st \<in> {(p + j, drop j s, c) | j. lo \<le> j \<and> j \<le> length (first_line s)}"
    then obtain j where j: "st = (p + j, drop j s, c)" "lo \<le> j" "j \<le> length (first_line s)" by blast
    then have "st = (p + lo + (j - lo), drop (j - lo) (drop lo s), c)"
      "j - lo \<le> length (first_line (drop lo s))"
      using True by (simp_all add: first_line_drop)
    then show "st \<in> {(p + lo + j, drop j (drop lo s), c) | j. j \<le> length (first_line (drop lo s))}"
      by blast
  qed
  finally show ?thesis .
qed

subsection \<open>Lookaheads, the tail and the search\<close>

lemma class_in_first_line:
  "\<not> P newline \<Longrightarrow>
   (\<exists>j x xs. j \<le> length (first_line s) \<and> drop j s = x # xs \<and> P x) \<longleftrightarrow> (\<exists>x\<in>set (first_line s). P x)"
proof (induction s)
  case Nil
  show ?case by simp
next
  case (Cons y ys)
  show ?case
  proof (cases "y = newline")
    case True
    then show ?thesis using Cons.prems by (auto simp: first_line_Cons)
  next
    case False
    have "(\<exists>j x xs. j \<le> length (first_line (y # ys)) \<and> drop j (y # ys) = x # xs \<and> P x)
            \<longleftrightarrow> P y \<or> (\<exists>i x xs. i \<le> length (first_line ys) \<and> drop i ys = x # xs \<and> P x)"
    proof
      assume "\<exists>j x xs. j \<le> length (first_line (y # ys)) \<and> drop j (y # ys) = x # xs \<and> P x"
      then obtain j x xs where j: "j \<le> length (first_line (y # ys))" "drop j (y # ys) = x # xs" "P x"
        by blast
      show "P y \<or> (\<exists>i x xs. i \<le> length (first_line ys) \<and> drop i ys = x # xs \<and> P x)"
      proof (cases j)
        case 0
        then show ?thesis using j by simp
      next
        case (Suc i)
        then have "i \<le> length (first_line ys)" "drop i ys = x # xs"
          using j False by (simp_all add: first_line_Cons)
        then show ?thesis using j(3) by blast
      qed
    next
      assume "P y \<or> (\<exists>i x xs. i \<le> length (first_line ys) \<and> drop i ys = x # xs \<and> P x)"
      then show "\<exists>j x xs. j \<le> length (first_line (y # ys)) \<and> drop j (y # ys) = x # xs \<and> P x"
      proof
        assume "P y"
        then have "0 \<le> length (first_line (y # ys)) \<and> drop 0 (y # ys) = y # ys \<and> P y" by simp
        then show ?thesis by blast
      next
        assume "\<exists>i x xs. i \<le> length (first_line ys) \<and> drop i ys = x # xs \<and> P x"
        then obtain i x xs where "i \<le> length (first_line ys)" "drop i ys = x # xs" "P x" by blast
        then have "Suc i \<le> length (first_line (y # ys)) \<and> drop (Suc i) (y # ys) = x # xs \<and> P x"
          using False by (simp add: first_line_Cons)
        then show ?thesis by blast
      qed
    qed
    then show ?thesis using Cons.IH[OF Cons.prems] False by (simp add: first_line_Cons)
  qed
qed

lemma matches_class_set:
  "set (matches (Seq (Cls False rs) Eps) ic (p, s, c)) =
     {(Suc p, xs, c) | x xs. s = x # xs \<and> in_class ic rs x}"
  by (cases s) auto

lemma matches_Eol_mem:
  "st \<in> set (matches (Seq Eol Eps) ic (p, s, c)) \<longleftrightarrow> (s = [] \<or> s = [newline]) \<and> st = (p, s, c)"
  by auto

lemma nonempty_iff_mem: "xs \<noteq> [] \<longleftrightarrow> (\<exists>x. x \<in> set xs)"
  by (cases xs) auto

lemma rep_Dot_Bex:
  "(\<exists>m\<in>set (matches (Rep lo None Dot) ic (p, s, c)). Q m) \<longleftrightarrow>
     (\<exists>j. lo \<le> j \<and> j \<le> length (first_line s) \<and> Q (p + j, drop j s, c))"
  unfolding rep_Dot by blast

lemma matches_Seq_mem:
  "st' \<in> set (matches (Seq a b) ic st) \<longleftrightarrow> (\<exists>m\<in>set (matches a ic st). st' \<in> set (matches b ic m))"
  by simp

lemma matches_Look_True:
  "matches (Look True r) ic (p, s, c) =
     (case matches r ic (p, s, c) of [] \<Rightarrow> [] | (p', s', c') # rest \<Rightarrow> [(p, s, c')])"
  by (simp split: list.split)

lemma lookahead_body:
  "st \<in> set (matches (Seq (Rep 0 None Dot) (Seq (Cls False rs) Eps)) ic (p, s, c)) \<longleftrightarrow>
     (\<exists>j x xs. j \<le> length (first_line s) \<and> drop j s = x # xs \<and> in_class ic rs x
        \<and> st = (Suc (p + j), xs, c))"
proof -
  have "st \<in> set (matches (Seq (Rep 0 None Dot) (Seq (Cls False rs) Eps)) ic (p, s, c)) \<longleftrightarrow>
      (\<exists>m\<in>set (matches (Rep 0 None Dot) ic (p, s, c)). st \<in> set (matches (Seq (Cls False rs) Eps) ic m))"
    by (rule matches_Seq_mem)
  also have "\<dots> \<longleftrightarrow> (\<exists>j. j \<le> length (first_line s)
      \<and> st \<in> set (matches (Seq (Cls False rs) Eps) ic (p + j, drop j s, c)))"
    unfolding rep_Dot_Bex by (simp only: le0 simp_thms)
  also have "\<dots> \<longleftrightarrow> (\<exists>j x xs. j \<le> length (first_line s) \<and> drop j s = x # xs \<and> in_class ic rs x
        \<and> st = (Suc (p + j), xs, c))"
    unfolding matches_class_set by blast
  finally show ?thesis .
qed

lemma lookahead_class:
  assumes "\<not> in_class ic rs newline"
  shows "matches (Look True (Seq (Rep 0 None Dot) (Seq (Cls False rs) Eps))) ic (p, s, c) =
     (if \<exists>x\<in>set (first_line s). in_class ic rs x then [(p, s, c)] else [])"
proof -
  let ?body = "matches (Seq (Rep 0 None Dot) (Seq (Cls False rs) Eps)) ic (p, s, c)"
  have ne: "?body \<noteq> [] \<longleftrightarrow> (\<exists>x\<in>set (first_line s). in_class ic rs x)"
  proof -
    have "?body \<noteq> [] \<longleftrightarrow> (\<exists>st. st \<in> set ?body)"
      by (rule nonempty_iff_mem)
    also have "\<dots> \<longleftrightarrow> (\<exists>j x xs. j \<le> length (first_line s) \<and> drop j s = x # xs \<and> in_class ic rs x)"
      unfolding lookahead_body by blast
    also have "\<dots> \<longleftrightarrow> (\<exists>x\<in>set (first_line s). in_class ic rs x)"
      using assms by (rule class_in_first_line)
    finally show ?thesis .
  qed
  show ?thesis
  proof (cases ?body)
    case Nil
    have no: "\<not> (\<exists>x\<in>set (first_line s). in_class ic rs x)" using ne Nil by blast
    show ?thesis by (simp only: matches_Look_True Nil list.case no if_False)
  next
    case (Cons st rest)
    then have "st \<in> set ?body" by (simp only: list.set) simp
    then have "snd (snd st) = c" unfolding lookahead_body by (elim exE conjE) (simp only: snd_conv)
    then obtain p' s' where st: "st = (p', s', c)" by (cases st) auto
    have "?body \<noteq> []" by (simp only: Cons list.distinct not_False_eq_True)
    with ne have ex: "\<exists>x\<in>set (first_line s). in_class ic rs x" by blast
    show ?thesis by (simp only: matches_Look_True Cons st list.case prod.case ex if_True)
  qed
qed

lemma drop_first_line: "drop (length (first_line s)) s = dropWhile (\<lambda>c. c \<noteq> newline) s"
  by (simp add: first_line_def dropWhile_eq_drop)

lemma end_at_first_line:
  "j \<le> length (first_line s) \<Longrightarrow> drop j s = [] \<or> drop j s = [newline] \<Longrightarrow> j = length (first_line s)"
proof (induction s arbitrary: j)
  case Nil
  then show ?case by simp
next
  case (Cons y ys)
  show ?case
  proof (cases "y = newline")
    case True
    then show ?thesis using Cons.prems by (simp add: first_line_Cons)
  next
    case False
    show ?thesis
    proof (cases j)
      case 0
      then show ?thesis using Cons.prems False by simp
    next
      case (Suc i)
      have 1: "i \<le> length (first_line ys)"
        using Cons.prems(1) False Suc by (simp add: first_line_Cons)
      have 2: "drop i ys = [] \<or> drop i ys = [newline]"
        using Cons.prems(2) Suc by simp
      have "i = length (first_line ys)" using 1 2 by (rule Cons.IH)
      then show ?thesis using Suc False by (simp add: first_line_Cons)
    qed
  qed
qed

lemma length_tail:
  "matches (Seq (Rep n None Dot) (Seq Eol Eps)) ic (p, s, c) \<noteq> [] \<longleftrightarrow>
     n \<le> length (first_line s) \<and> ends_line s"
proof -
  let ?m = "matches (Seq (Rep n None Dot) (Seq Eol Eps)) ic (p, s, c)"
  have S: "\<And>st. st \<in> set ?m \<longleftrightarrow> (\<exists>j. n \<le> j \<and> j \<le> length (first_line s)
                        \<and> (drop j s = [] \<or> drop j s = [newline]) \<and> st = (p + j, drop j s, c))"
  proof -
    fix st
    have "st \<in> set ?m \<longleftrightarrow>
        (\<exists>m\<in>set (matches (Rep n None Dot) ic (p, s, c)). st \<in> set (matches (Seq Eol Eps) ic m))"
      by (rule matches_Seq_mem)
    also have "\<dots> \<longleftrightarrow> (\<exists>j. n \<le> j \<and> j \<le> length (first_line s)
        \<and> st \<in> set (matches (Seq Eol Eps) ic (p + j, drop j s, c)))"
      unfolding rep_Dot_Bex by (rule refl)
    also have "\<dots> \<longleftrightarrow> (\<exists>j. n \<le> j \<and> j \<le> length (first_line s)
                        \<and> (drop j s = [] \<or> drop j s = [newline]) \<and> st = (p + j, drop j s, c))"
      unfolding matches_Eol_mem by (simp only: conj_assoc)
    finally show "st \<in> set ?m \<longleftrightarrow> (\<exists>j. n \<le> j \<and> j \<le> length (first_line s)
                        \<and> (drop j s = [] \<or> drop j s = [newline]) \<and> st = (p + j, drop j s, c))" .
  qed
  have "?m \<noteq> [] \<longleftrightarrow> (\<exists>st. st \<in> set ?m)"
    by (rule nonempty_iff_mem)
  also have "\<dots> \<longleftrightarrow> (\<exists>j. n \<le> j \<and> j \<le> length (first_line s) \<and> (drop j s = [] \<or> drop j s = [newline]))"
    unfolding S by blast
  also have "\<dots> \<longleftrightarrow> n \<le> length (first_line s) \<and> ends_line s"
  proof
    assume "\<exists>j. n \<le> j \<and> j \<le> length (first_line s) \<and> (drop j s = [] \<or> drop j s = [newline])"
    then obtain j where j: "n \<le> j" "j \<le> length (first_line s)" "drop j s = [] \<or> drop j s = [newline]"
      by blast
    have jl: "j = length (first_line s)" using j(2) j(3) by (rule end_at_first_line)
    have "drop (length (first_line s)) s = [] \<or> drop (length (first_line s)) s = [newline]"
      using j(3) unfolding jl .
    then have "ends_line s" by (simp only: ends_line_def drop_first_line)
    moreover have "n \<le> length (first_line s)" using j(1) unfolding jl .
    ultimately show "n \<le> length (first_line s) \<and> ends_line s" by blast
  next
    assume "n \<le> length (first_line s) \<and> ends_line s"
    then have "n \<le> length (first_line s) \<and> length (first_line s) \<le> length (first_line s)
        \<and> (drop (length (first_line s)) s = [] \<or> drop (length (first_line s)) s = [newline])"
      by (simp only: ends_line_def drop_first_line order_refl simp_thms)
    then show "\<exists>j. n \<le> j \<and> j \<le> length (first_line s) \<and> (drop j s = [] \<or> drop j s = [newline])"
      by blast
  qed
  finally show ?thesis .
qed

lemma Bol_later: "0 < p \<Longrightarrow> \<not> search_from (Seq Bol r) ic p s"
  by (induction s arbitrary: p) auto

lemma search_Bol: "search_from (Seq Bol r) ic 0 s \<longleftrightarrow> matches r ic (0, s, []) \<noteq> []"
  by (cases s) (auto simp: Bol_later)

lemma search_class:
  "search_from (Seq (Cls False rs) Eps) ic p s \<longleftrightarrow> (\<exists>x\<in>set s. in_class ic rs x)"
  by (induction s arbitrary: p) auto

lemma ends_line_set:
  "ends_line s \<Longrightarrow> \<not> P newline \<Longrightarrow> (\<exists>x\<in>set s. P x) \<longleftrightarrow> (\<exists>x\<in>set (first_line s). P x)"
proof -
  assume e: "ends_line s" and n: "\<not> P newline"
  have "s = first_line s @ dropWhile (\<lambda>c. c \<noteq> newline) s"
    by (simp add: first_line_def)
  then have "set s = set (first_line s) \<union> set (dropWhile (\<lambda>c. c \<noteq> newline) s)"
    by (metis set_append)
  moreover have "set (dropWhile (\<lambda>c. c \<noteq> newline) s) \<subseteq> {newline}"
  proof (cases "dropWhile (\<lambda>c. c \<noteq> newline) s = []")
    case True
    show ?thesis unfolding True by simp
  next
    case False
    then have "dropWhile (\<lambda>c. c \<noteq> newline) s = [newline]"
      using e unfolding ends_line_def by blast
    then show ?thesis by simp
  qed
  ultimately show ?thesis using n by blast
qed

lemma strong_equiv:
  assumes "\<not> in_class ic lo newline" "\<not> in_class ic up newline"
    "\<not> in_class ic di newline" "\<not> in_class ic sp newline"
  shows "search_from
      (Seq Bol (Seq (Look True (Seq (Rep 0 None Dot) (Seq (Cls False lo) Eps)))
        (Seq (Look True (Seq (Rep 0 None Dot) (Seq (Cls False up) Eps)))
          (Seq (Look True (Seq (Rep 0 None Dot) (Seq (Cls False di) Eps)))
            (Seq (Look True (Seq (Rep 0 None Dot) (Seq (Cls False sp) Eps)))
              (Seq (Rep n None Dot) (Seq Eol Eps))))))) ic 0 s
    \<longleftrightarrow>
      search_from (Seq Bol (Seq (Rep n None Dot) (Seq Eol Eps))) ic 0 s
    \<and> search_from (Seq (Cls False lo) Eps) ic 0 s
    \<and> search_from (Seq (Cls False up) Eps) ic 0 s
    \<and> search_from (Seq (Cls False di) Eps) ic 0 s
    \<and> search_from (Seq (Cls False sp) Eps) ic 0 s"
proof -
  have L: "\<And>rs r st. \<not> in_class ic rs newline \<Longrightarrow>
      matches (Seq (Look True (Seq (Rep 0 None Dot) (Seq (Cls False rs) Eps))) r) ic (0, s, [])
        = (if \<exists>x\<in>set (first_line s). in_class ic rs x then matches r ic (0, s, []) else [])"
    by (simp add: lookahead_class del: matches.simps(9,10))
  have left: "search_from
      (Seq Bol (Seq (Look True (Seq (Rep 0 None Dot) (Seq (Cls False lo) Eps)))
        (Seq (Look True (Seq (Rep 0 None Dot) (Seq (Cls False up) Eps)))
          (Seq (Look True (Seq (Rep 0 None Dot) (Seq (Cls False di) Eps)))
            (Seq (Look True (Seq (Rep 0 None Dot) (Seq (Cls False sp) Eps)))
              (Seq (Rep n None Dot) (Seq Eol Eps))))))) ic 0 s
    \<longleftrightarrow> (\<exists>x\<in>set (first_line s). in_class ic lo x) \<and> (\<exists>x\<in>set (first_line s). in_class ic up x)
      \<and> (\<exists>x\<in>set (first_line s). in_class ic di x) \<and> (\<exists>x\<in>set (first_line s). in_class ic sp x)
      \<and> n \<le> length (first_line s) \<and> ends_line s"
  proof -
    have t: "matches (Seq (Rep n None Dot) (Seq Eol Eps)) ic (0, s, []) \<noteq> [] \<longleftrightarrow>
        n \<le> length (first_line s) \<and> ends_line s"
      by (rule length_tail)
    show ?thesis
      unfolding search_Bol L[OF assms(1)] L[OF assms(2)] L[OF assms(3)] L[OF assms(4)]
      using t by (simp only: if_distrib[of "\<lambda>x. x \<noteq> []"] split: if_split) blast
  qed
  have right: "search_from (Seq Bol (Seq (Rep n None Dot) (Seq Eol Eps))) ic 0 s
      \<longleftrightarrow> n \<le> length (first_line s) \<and> ends_line s"
    unfolding search_Bol by (rule length_tail)
  show ?thesis
  proof (cases "n \<le> length (first_line s) \<and> ends_line s")
    case False
    then show ?thesis unfolding left right by blast
  next
    case True
    then have e: "ends_line s" by blast
    have E: "(\<exists>x\<in>set s. in_class ic lo x) \<longleftrightarrow> (\<exists>x\<in>set (first_line s). in_class ic lo x)"
      "(\<exists>x\<in>set s. in_class ic up x) \<longleftrightarrow> (\<exists>x\<in>set (first_line s). in_class ic up x)"
      "(\<exists>x\<in>set s. in_class ic di x) \<longleftrightarrow> (\<exists>x\<in>set (first_line s). in_class ic di x)"
      "(\<exists>x\<in>set s. in_class ic sp x) \<longleftrightarrow> (\<exists>x\<in>set (first_line s). in_class ic sp x)"
      using ends_line_set[of s "in_class ic lo", OF e assms(1)]
        ends_line_set[of s "in_class ic up", OF e assms(2)]
        ends_line_set[of s "in_class ic di", OF e assms(3)]
        ends_line_set[of s "in_class ic sp", OF e assms(4)]
      by blast+
    show ?thesis unfolding left right search_class E using True by blast
  qed
qed

subsection \<open>The patterns of the catalog\<close>

lemma rule_satisfied_parsed:
  assumes "Option.bind (map_of PRESETS name) regex = Some pattern" "parse pattern = Inr r"
  shows "rule_satisfied ic name c = Some (search_from r ic 0 c)"
  using assms by (simp add: rule_satisfied_def re_compile_def)

lemma catalog_patterns:
  "Option.bind (map_of PRESETS ''min_length_8'') regex = Some ''^.{8,}$''"
  "Option.bind (map_of PRESETS ''min_length_12'') regex = Some ''^.{12,}$''"
  "Option.bind (map_of PRESETS ''has_lowercase'') regex = Some ''[a-z]''"
  "Option.bind (map_of PRESETS ''has_uppercase'') regex = Some ''[A-Z]''"
  "Option.bind (map_of PRESETS ''has_digit'') regex = Some ''[0-9]''"
  "Option.bind (map_of PRESETS ''has_special_char'') regex = Some SPECIAL_CHARS_REGEX"
  "Option.bind (map_of PRESETS ''strong_8_plus_all_types'') regex
     = Some (''^(?=.*[a-z])(?=.*[A-Z])(?=.*[0-9])(?=.*'' @ SPECIAL_CHARS_REGEX @ '').{8,}$'')"
  "Option.bind (map_of PRESETS ''strong_12_plus_all_types'') regex
     = Some (''^(?=.*[a-z])(?=.*[A-Z])(?=.*[0-9])(?=.*'' @ SPECIAL_CHARS_REGEX @ '').{12,}$'')"
  by (simp_all add: PRESETS_def)

lemma parsed_patterns:
  "parse ''^.{8,}$'' = Inr (Seq Bol (Seq (Rep 8 None Dot) (Seq Eol Eps)))"
  "parse ''^.{12,}$'' = Inr (Seq Bol (Seq (Rep 12 None Dot) (Seq Eol Eps)))"
  "parse ''[a-z]'' = Inr (Seq (Cls False [(CHR ''a'', CHR ''z'')]) Eps)"
  "parse ''[A-Z]'' = Inr (Seq (Cls False [(CHR ''A'', CHR ''Z'')]) Eps)"
  "parse ''[0-9]'' = Inr (Seq (Cls False [(CHR ''0'', CHR ''9'')]) Eps)"
  "parse SPECIAL_CHARS_REGEX = Inr (Seq (Cls False (map (\<lambda>c. (c, c)) special_chars)) Eps)"
  "parse (''^(?=.*[a-z])(?=.*[A-Z])(?=.*[0-9])(?=.*'' @ SPECIAL_CHARS_REGEX @ '').{8,}$'')
     = Inr (strong_node 8)"
  "parse (''^(?=.*[a-z])(?=.*[A-Z])(?=.*[0-9])(?=.*'' @ SPECIAL_CHARS_REGEX @ '').{12,}$'')
     = Inr (strong_node 12)"
  by code_simp+

lemmas parsed_rules = rule_satisfied_parsed[OF catalog_patterns(1) parsed_patterns(1)]
  rule_satisfied_parsed[OF catalog_patterns(2) parsed_patterns(2)]
  rule_satisfied_parsed[OF catalog_patterns(3) parsed_patterns(3)]
  rule_satisfied_parsed[OF catalog_patterns(4) parsed_patterns(4)]
  rule_satisfied_parsed[OF catalog_patterns(5) parsed_patterns(5)]
  rule_satisfied_parsed[OF catalog_patterns(6) parsed_patterns(6)]
  rule_satisfied_parsed[OF catalog_patterns(7) parsed_patterns(7)]
  rule_satisfied_parsed[OF catalog_patterns(8) parsed_patterns(8)]

lemma lower_newline: "lower_char newline = newline"
  by (simp add: lower_char_def newline_def)

lemma upper_newline: "upper_char newline = newline"
  by (simp add: upper_char_def newline_def)

lemma newline_in_no_class:
  "\<not> in_class ic [(CHR ''a'', CHR ''z'')] newline"
  "\<not> in_class ic [(CHR ''A'', CHR ''Z'')] newline"
  "\<not> in_class ic [(CHR ''0'', CHR ''9'')] newline"
  "\<not> in_class ic (map (\<lambda>c. (c, c)) special_chars) newline"
  by (simp_all add: in_class_def in_range_def between_def lower_newline upper_newline
      special_chars_def, simp_all add: newline_def)

section \<open>The claims\<close>

text \<open>
  C1, as stated, fails. On the five raw lines \<open>abc\<close>, \<open>ABCDEFGH\<close>, the empty line, the
  line of two spaces and \<open>Passw0rd!\<close>, with the pattern of \<open>min_length_8\<close> and no
  inversion, the run counts three valid passwords and not four: two of the five lines
  are blank.
\<close>

theorem example_min_length_8_counterexample:
  "count_valid_passwords
     (projr (filter_passwords re_compile [''abc'', ''ABCDEFGH'', [], ''  '', ''Passw0rd!''] None
               (Some [''^.{8,}$'']) None False False)) \<noteq> 4"
  by code_simp

text \<open>
  C1, amended. The pattern of \<open>min_length_8\<close> is the one used here; on the five raw
  lines the run writes \<open>ABCDEFGH\<close> and \<open>Passw0rd!\<close>, in this order, and counts 5
  processed lines, 3 valid passwords and 2 matched ones, which is also what its summary
  says; \<open>main\<close> with the preset \<open>min_length_8\<close> does the same.
\<close>

theorem example_min_length_8:
  "map_option regex (map_of PRESETS ''min_length_8'') = Some (Some ''^.{8,}$'')
   \<and> filter_passwords re_compile [''abc'', ''ABCDEFGH'', [], ''  '', ''Passw0rd!''] None
         (Some [''^.{8,}$'']) None False False
       = Inr \<lparr>written = [''ABCDEFGH\<newline>'', ''Passw0rd!\<newline>''],
              count_matched = 2, count_total_processed_lines = 5, count_valid_passwords = 3,
              printed = [''Processed 3 valid passwords from 5 total lines. Matched: 2.'']\<rparr>
   \<and> main re_compile
         \<lparr>args_wordlist = [''abc'', ''ABCDEFGH'', [], ''  '', ''Passw0rd!''],
          args_presets = Some [''min_length_8''], args_regex = None, args_output = None,
          args_invert_match = False, args_ignore_case = False, args_dictionary_file = None,
          args_list_presets = False\<rparr>
       = \<lparr>status = 0, sink = [''ABCDEFGH\<newline>'', ''Passw0rd!\<newline>''], stdout = [],
          stderr = [''Processed 3 valid passwords from 5 total lines. Matched: 2.'']\<rparr>"
  by code_simp

text \<open>
  C2. For every candidate and every set of active filters, the line evaluator answers
  true if and only if (a) when a dictionary word set is present, the candidate, put in
  lower case when case-insensitive mode is on and unchanged otherwise, is a member of
  the set, and (b) the \<open>search\<close> method of every compiled pattern finds a match in the
  candidate.
\<close>

theorem line_evaluator_iff:
  "all_criteria_met compiled_regexes present dictionary_words ignore_case candidate \<longleftrightarrow>
     ((present \<longrightarrow> (if ignore_case then lower candidate else candidate) \<in> dictionary_words)
      \<and> (\<forall>rx\<in>set compiled_regexes. search rx candidate))"
  by (rule all_criteria_met_iff)

theorem line_evaluator_iff_witness:
  "all_criteria_met [projr (re_compile ''[0-9]'' True)] True
     (dictionary_words_of True (Some [''hunter2'', ''qwerty''])) True ''Hunter2''"
proof -
  let ?rxs = "[projr (re_compile ''[0-9]'' True)]"
  let ?ws = "dictionary_words_of True (Some [''hunter2'', ''qwerty''])"
  have a: "True \<longrightarrow> (if True then lower ''Hunter2'' else ''Hunter2'') \<in> ?ws"
    by code_simp
  have b: "\<forall>rx\<in>set ?rxs. search rx ''Hunter2''"
    by code_simp
  show ?thesis
    using line_evaluator_iff[of ?rxs True ?ws True "''Hunter2''"] a b by blast
qed

text \<open>
  C3. A run of \<open>main\<close> that is no listing request and whose active criteria come out
  empty (no active pattern and no active dictionary file) is refused: the process ends
  with status 2 and a message on \<open>sys.stderr\<close>, and nothing has been written to the
  output file or printed to \<open>sys.stdout\<close>.
\<close>

theorem zero_criteria_rejected:
  assumes "\<not> args_list_presets args"
    and "active_criteria args = Inr ([], None, warnings)"
  shows "status (main re args) = 2 \<and> sink (main re args) = [] \<and> stdout (main re args) = []
     \<and> stderr (main re args)
         = warnings @ [''No filtering criteria specified. Use --presets or --regex.'']"
  using assms by (simp add: main_def parser_error_def)

theorem zero_criteria_rejected_witness:
  "status (main re_compile
       \<lparr>args_wordlist = [''abc'', ''12345678''], args_presets = None, args_regex = Some [],
        args_output = None, args_invert_match = False, args_ignore_case = False,
        args_dictionary_file = None, args_list_presets = False\<rparr>) = 2
   \<and> sink (main re_compile
       \<lparr>args_wordlist = [''abc'', ''12345678''], args_presets = None, args_regex = Some [],
        args_output = None, args_invert_match = False, args_ignore_case = False,
        args_dictionary_file = None, args_list_presets = False\<rparr>) = []"
proof -
  let ?args = "\<lparr>args_wordlist = [''abc'', ''12345678''], args_presets = None, args_regex = Some [],
        args_output = None, args_invert_match = False, args_ignore_case = False,
        args_dictionary_file = None, args_list_presets = False\<rparr>"
  have 1: "\<not> args_list_presets ?args" by simp
  have 2: "active_criteria ?args = Inr ([], None, [])"
    by (rule empty_selection_no_criteria) simp_all
  from zero_criteria_rejected[OF 1 2, of re_compile] show ?thesis by simp
qed

text \<open>
  C4. For a fixed word list and fixed filters (the patterns compile), the lines written
  with \<open>invert_match\<close> true and the lines written with \<open>invert_match\<close> false have
  nothing in common, and together they are the trimmed non-blank lines of the word
  list, each with its line terminator.
\<close>

theorem invert_complement:
  assumes "compiled_regexes_of re ignore_case regex_patterns = Inr compiled_regexes"
  shows "\<exists>inverted plain.
     filter_passwords re wordlist_file output_file regex_patterns dictionary_file True ignore_case
       = Inr inverted
   \<and> filter_passwords re wordlist_file output_file regex_patterns dictionary_file False ignore_case
       = Inr plain
   \<and> set (written inverted) \<inter> set (written plain) = {}
   \<and> set (written inverted) \<union> set (written plain)
       = (\<lambda>p. p @ [newline]) ` set (candidates wordlist_file)"
proof -
  obtain rT where rT: "filter_passwords re wordlist_file output_file regex_patterns dictionary_file True ignore_case = Inr rT"
    "written rT = map (\<lambda>p. p @ [newline])
          (filter (\<lambda>p. all_criteria_met compiled_regexes (dictionary_file \<noteq> None) (dictionary_words_of ignore_case dictionary_file) ignore_case p \<noteq> True)
             (candidates wordlist_file))"
    using filter_passwords_Inr[OF assms] by blast
  obtain rF where rF: "filter_passwords re wordlist_file output_file regex_patterns dictionary_file False ignore_case = Inr rF"
    "written rF = map (\<lambda>p. p @ [newline])
          (filter (\<lambda>p. all_criteria_met compiled_regexes (dictionary_file \<noteq> None) (dictionary_words_of ignore_case dictionary_file) ignore_case p \<noteq> False)
             (candidates wordlist_file))"
    using filter_passwords_Inr[OF assms] by blast
  have "set (written rT) \<inter> set (written rF) = {}"
    unfolding rT(2) rF(2) by auto
  moreover have "set (written rT) \<union> set (written rF) = (\<lambda>p. p @ [newline]) ` set (candidates wordlist_file)"
    unfolding rT(2) rF(2) by auto
  ultimately show ?thesis using rT(1) rF(1) by blast
qed

theorem invert_complement_witness:
  "\<exists>inverted plain.
     filter_passwords re_compile [''abc'', ''a1 '', ''  '', ''x9''] None (Some [''[0-9]'']) None True False
       = Inr inverted
   \<and> filter_passwords re_compile [''abc'', ''a1 '', ''  '', ''x9''] None (Some [''[0-9]'']) None False False
       = Inr plain
   \<and> set (written inverted) \<inter> set (written plain) = {}
   \<and> set (written inverted) \<union> set (written plain)
       = (\<lambda>p. p @ [newline]) ` set (candidates [''abc'', ''a1 '', ''  '', ''x9''])"
proof -
  have "parse ''[0-9]'' = Inr (Seq (Cls False [(CHR ''0'', CHR ''9'')]) Eps)"
    by code_simp
  then obtain rx where "re_compile ''[0-9]'' False = Inr rx"
    using re_compile_parsed by blast
  then have "compiled_regexes_of re_compile False (Some [''[0-9]'']) = Inr [rx]"
    by (rule compile_patterns_single)
  then show ?thesis by (rule invert_complement)
qed

text \<open>
  C5. Without inversion, for every word list, every two preset identifiers \<open>A\<close> and
  \<open>B\<close> (the dictionary rule among them, with any or no dictionary file) and every
  other setting, the lines written with the selection \<open>[A, B]\<close> are exactly the lines
  written with \<open>[A]\<close> that are also written with \<open>[B]\<close>.
\<close>

theorem preset_pair_intersection:
  assumes "\<not> args_invert_match args"
  shows "set (sink (main re (args\<lparr>args_presets := Some [A, B]\<rparr>)))
       = set (sink (main re (args\<lparr>args_presets := Some [A]\<rparr>)))
         \<inter> set (sink (main re (args\<lparr>args_presets := Some [B]\<rparr>)))"
proof (cases "args_list_presets args")
  case True
  then show ?thesis by (simp add: main_def)
next
  case nl: False
  let ?AB = "args\<lparr>args_presets := Some [A, B]\<rparr>"
  let ?A = "args\<lparr>args_presets := Some [A]\<rparr>"
  let ?B = "args\<lparr>args_presets := Some [B]\<rparr>"
  let ?ic = "args_ignore_case args"
  let ?df = "args_dictionary_file args"
  let ?cs = "candidates (args_wordlist args)"
  show ?thesis
  proof (cases "get_preset_by_name_or_id A")
    case None
    have "sink (main re ?AB) = []" by (rule sink_unresolved[of "[A, B]"]) (simp_all add: None)
    moreover have "sink (main re ?A) = []" by (rule sink_unresolved[of "[A]"]) (simp_all add: None)
    ultimately show ?thesis by simp
  next
    case (Some nA)
    note a = resolved_name[OF Some]
    show ?thesis
    proof (cases "get_preset_by_name_or_id B")
      case None
      have "sink (main re ?AB) = []"
        by (rule sink_unresolved[of "[A, B]"]) (simp_all add: None Some a)
      moreover have "sink (main re ?B) = []" by (rule sink_unresolved[of "[B]"]) (simp_all add: None)
      ultimately show ?thesis by simp
    next
      case Some': (Some nB)
      note b = resolved_name[OF Some']
      let ?chosen = "if nB \<notin> set [nA] then [nA, nB] else [nA]"
      have sA: "sink (main re ?A) =
         (if \<forall>n\<in>set [nA]. rule_usable re ?ic ?df n
          then map (\<lambda>p. p @ [newline]) (filter (\<lambda>p. \<forall>n\<in>set [nA]. rule_holds re ?ic ?df n p) ?cs)
          else [])"
        using main_presets_sink[of ?A "[A]" "[nA]" re] nl assms a Some by simp
      have sB: "sink (main re ?B) =
         (if \<forall>n\<in>set [nB]. rule_usable re ?ic ?df n
          then map (\<lambda>p. p @ [newline]) (filter (\<lambda>p. \<forall>n\<in>set [nB]. rule_holds re ?ic ?df n p) ?cs)
          else [])"
        using main_presets_sink[of ?B "[B]" "[nB]" re] nl assms b Some' by simp
      have sAB: "sink (main re ?AB) =
         (if \<forall>n\<in>set ?chosen. rule_usable re ?ic ?df n
          then map (\<lambda>p. p @ [newline]) (filter (\<lambda>p. \<forall>n\<in>set ?chosen. rule_holds re ?ic ?df n p) ?cs)
          else [])"
        using main_presets_sink[of ?AB "[A, B]" ?chosen re] nl assms a b Some Some' by auto
      have ch: "set ?chosen = {nA, nB}" by auto
      show ?thesis
        unfolding sA sB sAB ch using newline_inj by (auto simp: inj_on_def)
    qed
  qed
qed

theorem preset_pair_intersection_witness:
  "set (sink (main re_compile
       \<lparr>args_wordlist = [''password1'', ''Password'', ''hunter2'', ''abcdefgh1''],
        args_presets = Some [''ml8'', ''dict''], args_regex = None, args_output = None,
        args_invert_match = False, args_ignore_case = False,
        args_dictionary_file = Some [''password1'', ''hunter2''], args_list_presets = False\<rparr>))
   = set (sink (main re_compile
       \<lparr>args_wordlist = [''password1'', ''Password'', ''hunter2'', ''abcdefgh1''],
        args_presets = Some [''ml8''], args_regex = None, args_output = None,
        args_invert_match = False, args_ignore_case = False,
        args_dictionary_file = Some [''password1'', ''hunter2''], args_list_presets = False\<rparr>))
     \<inter> set (sink (main re_compile
       \<lparr>args_wordlist = [''password1'', ''Password'', ''hunter2'', ''abcdefgh1''],
        args_presets = Some [''dict''], args_regex = None, args_output = None,
        args_invert_match = False, args_ignore_case = False,
        args_dictionary_file = Some [''password1'', ''hunter2''], args_list_presets = False\<rparr>))"
  using preset_pair_intersection[of
      "\<lparr>args_wordlist = [''password1'', ''Password'', ''hunter2'', ''abcdefgh1''],
        args_presets = None, args_regex = None, args_output = None,
        args_invert_match = False, args_ignore_case = False,
        args_dictionary_file = Some [''password1'', ''hunter2''], args_list_presets = False\<rparr>"
      re_compile "''ml8''" "''dict''"]
  by simp

text \<open>
  C6. With fixed filters (the patterns compile), filtering the output of a plain run
  again, plain, writes that output unchanged, and filtering the output of an inverted
  run, plain, writes nothing. The output is read back as it was written: each written
  string, a candidate and its line terminator, is one raw line.
\<close>

theorem refilter_output:
  assumes "compiled_regexes_of re ignore_case regex_patterns = Inr compiled_regexes"
  shows "\<exists>plain again inverted after.
     filter_passwords re wordlist_file output_file regex_patterns dictionary_file False ignore_case
       = Inr plain
   \<and> filter_passwords re (written plain) output_file regex_patterns dictionary_file False ignore_case
       = Inr again
   \<and> written again = written plain
   \<and> filter_passwords re wordlist_file output_file regex_patterns dictionary_file True ignore_case
       = Inr inverted
   \<and> filter_passwords re (written inverted) output_file regex_patterns dictionary_file False ignore_case
       = Inr after
   \<and> written after = []"
proof -
  let ?met = "all_criteria_met compiled_regexes (dictionary_file \<noteq> None)
                (dictionary_words_of ignore_case dictionary_file) ignore_case"
  let ?fp = "\<lambda>wl iv. filter_passwords re wl output_file regex_patterns dictionary_file iv ignore_case"
  have W: "\<And>wl iv. \<exists>r. ?fp wl iv = Inr r
      \<and> written r = map (\<lambda>p. p @ [newline]) (filter (\<lambda>p. ?met p \<noteq> iv) (candidates wl))"
    using filter_passwords_Inr[OF assms] by blast
  obtain r1 where r1: "?fp wordlist_file False = Inr r1"
    "written r1 = map (\<lambda>p. p @ [newline]) (filter (\<lambda>p. ?met p \<noteq> False) (candidates wordlist_file))"
    using W by blast
  obtain r2 where r2: "?fp (written r1) False = Inr r2"
    "written r2 = map (\<lambda>p. p @ [newline]) (filter (\<lambda>p. ?met p \<noteq> False) (candidates (written r1)))"
    using W by blast
  obtain r3 where r3: "?fp wordlist_file True = Inr r3"
    "written r3 = map (\<lambda>p. p @ [newline]) (filter (\<lambda>p. ?met p \<noteq> True) (candidates wordlist_file))"
    using W by blast
  obtain r4 where r4: "?fp (written r3) False = Inr r4"
    "written r4 = map (\<lambda>p. p @ [newline]) (filter (\<lambda>p. ?met p \<noteq> False) (candidates (written r3)))"
    using W by blast
  have "written r2 = written r1"
    unfolding r2(2) unfolding r1(2) candidates_written by simp
  moreover have "written r4 = []"
    unfolding r4(2) unfolding r3(2) candidates_written by simp
  ultimately show ?thesis using r1(1) r2(1) r3(1) r4(1) by blast
qed

theorem refilter_output_witness:
  "\<exists>plain again inverted after.
     filter_passwords re_compile [''abc'', ''a1 '', ''  '', ''x9''] None (Some [''[0-9]'']) None False False
       = Inr plain
   \<and> filter_passwords re_compile (written plain) None (Some [''[0-9]'']) None False False
       = Inr again
   \<and> written again = written plain
   \<and> filter_passwords re_compile [''abc'', ''a1 '', ''  '', ''x9''] None (Some [''[0-9]'']) None True False
       = Inr inverted
   \<and> filter_passwords re_compile (written inverted) None (Some [''[0-9]'']) None False False
       = Inr after
   \<and> written after = []"
proof -
  have "parse ''[0-9]'' = Inr (Seq (Cls False [(CHR ''0'', CHR ''9'')]) Eps)"
    by code_simp
  then obtain rx where "re_compile ''[0-9]'' False = Inr rx"
    using re_compile_parsed by blast
  then have "compiled_regexes_of re_compile False (Some [''[0-9]'']) = Inr [rx]"
    by (rule compile_patterns_single)
  then show ?thesis by (rule refilter_output)
qed

text \<open>
  C7. For every candidate, in both case modes, each of the rules \<open>min_length_8\<close>,
  \<open>has_lowercase\<close>, \<open>has_uppercase\<close>, \<open>has_digit\<close> and \<open>has_special_char\<close> has a
  pattern that compiles, and the pattern of \<open>strong_8_plus_all_types\<close> finds a match in
  the candidate if and only if all five of theirs do; likewise for
  \<open>strong_12_plus_all_types\<close> with \<open>min_length_12\<close>.
\<close>

theorem strong_rule_is_conjunction:
  "(\<exists>len lo up di sp.
      rule_satisfied ignore_case ''min_length_8'' candidate = Some len
    \<and> rule_satisfied ignore_case ''has_lowercase'' candidate = Some lo
    \<and> rule_satisfied ignore_case ''has_uppercase'' candidate = Some up
    \<and> rule_satisfied ignore_case ''has_digit'' candidate = Some di
    \<and> rule_satisfied ignore_case ''has_special_char'' candidate = Some sp
    \<and> rule_satisfied ignore_case ''strong_8_plus_all_types'' candidate
        = Some (len \<and> lo \<and> up \<and> di \<and> sp))
   \<and> (\<exists>len lo up di sp.
      rule_satisfied ignore_case ''min_length_12'' candidate = Some len
    \<and> rule_satisfied ignore_case ''has_lowercase'' candidate = Some lo
    \<and> rule_satisfied ignore_case ''has_uppercase'' candidate = Some up
    \<and> rule_satisfied ignore_case ''has_digit'' candidate = Some di
    \<and> rule_satisfied ignore_case ''has_special_char'' candidate = Some sp
    \<and> rule_satisfied ignore_case ''strong_12_plus_all_types'' candidate
        = Some (len \<and> lo \<and> up \<and> di \<and> sp))"
proof -
  note R = parsed_rules[of ignore_case candidate]
  have E: "\<And>n. search_from (strong_node n) ignore_case 0 candidate \<longleftrightarrow>
      search_from (Seq Bol (Seq (Rep n None Dot) (Seq Eol Eps))) ignore_case 0 candidate
    \<and> search_from (Seq (Cls False [(CHR ''a'', CHR ''z'')]) Eps) ignore_case 0 candidate
    \<and> search_from (Seq (Cls False [(CHR ''A'', CHR ''Z'')]) Eps) ignore_case 0 candidate
    \<and> search_from (Seq (Cls False [(CHR ''0'', CHR ''9'')]) Eps) ignore_case 0 candidate
    \<and> search_from (Seq (Cls False (map (\<lambda>c. (c, c)) special_chars)) Eps) ignore_case 0 candidate"
    unfolding strong_node_def
    by (rule strong_equiv) (rule newline_in_no_class)+
  show ?thesis unfolding R E by blast
qed

text \<open>
  C8. A raw line that is empty or holds only whitespace, at any place in the word list
  and under every combination of flags and filters, is never written and never counted
  as a valid password, though it is counted as a processed line: the run with the line
  writes what the run without it writes and counts the same valid and matched lines and
  one processed line more. Where the patterns do not compile, both runs end in the same
  exit.
\<close>

theorem blank_line_excluded:
  assumes "\<forall>c\<in>set raw_line. isspace c"
  shows "case (filter_passwords re (before @ raw_line # after) output_file regex_patterns
                 dictionary_file invert_match ignore_case,
               filter_passwords re (before @ after) output_file regex_patterns
                 dictionary_file invert_match ignore_case) of
           (Inr with_line, Inr without) \<Rightarrow>
               written with_line = written without
             \<and> raw_line \<notin> set (written with_line)
             \<and> strip raw_line @ [newline] \<notin> set (written with_line)
             \<and> count_valid_passwords with_line = count_valid_passwords without
             \<and> count_matched with_line = count_matched without
             \<and> count_total_processed_lines with_line = count_total_processed_lines without + 1
         | (Inl x, Inl y) \<Rightarrow> x = y
         | _ \<Rightarrow> False"
proof (cases "compiled_regexes_of re ignore_case regex_patterns")
  case (Inl x)
  then show ?thesis by (simp add: filter_passwords_Inl)
next
  case (Inr rxs)
  let ?met = "all_criteria_met rxs (dictionary_file \<noteq> None)
                (dictionary_words_of ignore_case dictionary_file) ignore_case"
  have c: "candidates (before @ raw_line # after) = candidates (before @ after)"
    using assms by (simp add: candidates_append candidates_blank)
  obtain r' where r': "filter_passwords re (before @ raw_line # after) output_file regex_patterns
                 dictionary_file invert_match ignore_case = Inr r'"
    "written r' = map (\<lambda>p. p @ [newline]) (filter (\<lambda>p. ?met p \<noteq> invert_match) (candidates (before @ raw_line # after)))"
    "count_total_processed_lines r' = length (before @ raw_line # after)"
    "count_valid_passwords r' = length (candidates (before @ raw_line # after))"
    "count_matched r' = length (filter (\<lambda>p. ?met p \<noteq> invert_match) (candidates (before @ raw_line # after)))"
    using filter_passwords_Inr[OF Inr] by blast
  obtain r where r: "filter_passwords re (before @ after) output_file regex_patterns
                 dictionary_file invert_match ignore_case = Inr r"
    "written r = map (\<lambda>p. p @ [newline]) (filter (\<lambda>p. ?met p \<noteq> invert_match) (candidates (before @ after)))"
    "count_total_processed_lines r = length (before @ after)"
    "count_valid_passwords r = length (candidates (before @ after))"
    "count_matched r = length (filter (\<lambda>p. ?met p \<noteq> invert_match) (candidates (before @ after)))"
    using filter_passwords_Inr[OF Inr] by blast
  have s: "strip raw_line = []" using assms by (simp add: strip_Nil_iff)
  have n1: "strip raw_line @ [newline] \<notin> set (written r')"
    unfolding r'(2) s by (auto simp: candidates_mem)
  have n2: "raw_line \<notin> set (written r')"
  proof
    assume "raw_line \<in> set (written r')"
    then obtain p where p: "p \<in> set (candidates (before @ raw_line # after))" "raw_line = p @ [newline]"
      unfolding r'(2) by auto
    from p(1) obtain l where "p = strip l" "strip l \<noteq> []"
      unfolding candidates_mem by blast
    then have "\<not> isspace (hd p)" "p \<noteq> []" using strip_hd by auto
    then have "\<not> isspace (hd raw_line)" "hd raw_line \<in> set raw_line" using p(2) by (auto simp: hd_append)
    with assms show False by blast
  qed
  show ?thesis using n1 n2 by (simp add: r r' c)
qed

theorem blank_line_excluded_witness:
  "case (filter_passwords re_compile ([''abc''] @ [CHR '' '', CHR 0x09, newline] # [''a1'']) None
           (Some [''[0-9]'']) None False False,
         filter_passwords re_compile ([''abc''] @ [''a1'']) None (Some [''[0-9]'']) None False False) of
     (Inr with_line, Inr without) \<Rightarrow>
         written with_line = written without
       \<and> [CHR '' '', CHR 0x09, newline] \<notin> set (written with_line)
       \<and> strip [CHR '' '', CHR 0x09, newline] @ [newline] \<notin> set (written with_line)
       \<and> count_valid_passwords with_line = count_valid_passwords without
       \<and> count_matched with_line = count_matched without
       \<and> count_total_processed_lines with_line = count_total_processed_lines without + 1
   | (Inl x, Inl y) \<Rightarrow> x = y
   | _ \<Rightarrow> False"
proof -
  have "\<forall>c\<in>set [CHR '' '', CHR 0x09, newline]. isspace c"
    by (simp add: isspace_def newline_def)
  then show ?thesis by (rule blank_line_excluded)
qed

text \<open>
  C9. For every identifier, \<open>get_preset_by_name_or_id\<close> returns a name exactly when
  that name is the key of a rule of the catalog and the identifier is this name or the
  id of this rule, and it returns \<open>None\<close> exactly when the identifier is neither the
  name nor the id of any rule.
\<close>

theorem resolve_iff:
  "(get_preset_by_name_or_id identifier = Some name \<longleftrightarrow>
     (\<exists>details. (name, details) \<in> set PRESETS \<and> (identifier = name \<or> identifier = id' details)))
   \<and> (get_preset_by_name_or_id identifier = None \<longleftrightarrow>
     \<not> (\<exists>name details. (name, details) \<in> set PRESETS \<and> (identifier = name \<or> identifier = id' details)))"
proof -
  have one: "get_preset_by_name_or_id identifier = Some name \<longleftrightarrow>
     (\<exists>details. (name, details) \<in> set PRESETS \<and> (identifier = name \<or> identifier = id' details))"
    using resolve_known resolve_Some by blast
  have two: "get_preset_by_name_or_id identifier = None \<longleftrightarrow>
     \<not> (\<exists>name details. (name, details) \<in> set PRESETS \<and> (identifier = name \<or> identifier = id' details))"
  proof
    assume "get_preset_by_name_or_id identifier = None"
    then show "\<not> (\<exists>name details. (name, details) \<in> set PRESETS \<and> (identifier = name \<or> identifier = id' details))"
      using resolve_known by force
  next
    assume "\<not> (\<exists>name details. (name, details) \<in> set PRESETS \<and> (identifier = name \<or> identifier = id' details))"
    then show "get_preset_by_name_or_id identifier = None"
      using resolve_Some by (cases "get_preset_by_name_or_id identifier") blast+
  qed
  show ?thesis using one two by blast
qed

theorem resolve_iff_witness:
  "get_preset_by_name_or_id ''ml8'' = Some ''min_length_8''
   \<and> get_preset_by_name_or_id ''min_length_8'' = Some ''min_length_8''
   \<and> get_preset_by_name_or_id ''ml9'' = None"
proof -
  have d: "(''min_length_8'',
       \<lparr>id' = ''ml8'', regex = Some ''^.{8,}$'',
        description = ''Passwords with a minimum length of 8 characters.''\<rparr>) \<in> set PRESETS"
    by (simp add: PRESETS_def)
  have "list_all (\<lambda>(name, details). ''ml9'' \<noteq> name \<and> ''ml9'' \<noteq> id' details) PRESETS"
    by (simp add: PRESETS_def)
  then have n: "\<not> (\<exists>name details. (name, details) \<in> set PRESETS
      \<and> (''ml9'' = name \<or> ''ml9'' = id' details))"
    by (auto simp: list_all_iff)
  have a: "get_preset_by_name_or_id ''ml8'' = Some ''min_length_8''"
    using resolve_iff[of "''ml8''" "''min_length_8''"] d by force
  have b: "get_preset_by_name_or_id ''min_length_8'' = Some ''min_length_8''"
    using resolve_iff[of "''min_length_8''" "''min_length_8''"] d by force
  have c: "get_preset_by_name_or_id ''ml9'' = None"
    using resolve_iff[of "''ml9''" "''x''"] n by blast
  show ?thesis using a b c by blast
qed

text \<open>
  C10. Called with no pattern list, or an empty one, and no dictionary,
  \<open>filter_passwords\<close> raises nothing: with \<open>invert_match\<close> false it writes every
  trimmed non-blank line of the word list, with \<open>invert_match\<close> true it writes nothing,
  and the counters say so.
\<close>

theorem no_criteria_passes_all:
  assumes "regex_patterns = None \<or> regex_patterns = Some []"
  shows "\<exists>r. filter_passwords re wordlist_file output_file regex_patterns None invert_match ignore_case
               = Inr r
     \<and> written r = (if invert_match then [] else map (\<lambda>p. p @ [newline]) (candidates wordlist_file))
     \<and> count_total_processed_lines r = length wordlist_file
     \<and> count_valid_passwords r = length (candidates wordlist_file)
     \<and> count_matched r = (if invert_match then 0 else length (candidates wordlist_file))"
proof -
  have c: "compiled_regexes_of re ignore_case regex_patterns = Inr []"
    using assms by (auto simp: compiled_regexes_of_def)
  have m: "\<And>p. all_criteria_met [] False (dictionary_words_of ignore_case None) ignore_case p"
    by (simp add: all_criteria_met_def)
  show ?thesis
    using filter_passwords_Inr[OF c, of wordlist_file output_file None invert_match]
    by (auto simp: m)
qed

theorem no_criteria_passes_all_witness:
  "\<exists>r. filter_passwords re_compile [''abc'', [], '' x ''] None (Some []) None False False = Inr r
     \<and> written r = map (\<lambda>p. p @ [newline]) (candidates [''abc'', [], '' x ''])
     \<and> count_total_processed_lines r = 3
     \<and> count_valid_passwords r = length (candidates [''abc'', [], '' x ''])
     \<and> count_matched r = length (candidates [''abc'', [], '' x ''])"
  using no_criteria_passes_all[of "Some []" re_compile "[''abc'', [], '' x '']" None False False]
  by (simp add: numeral_3_eq_3)

end
